theory Spec2Isabelle
  imports Main "HOL-Library.Word" "HOL-Library.FSet" "HOL-Library.List_Lexorder"
begin

unbundle bit_operations_syntax

section \<open>GTID (src/mongo/db/gtid.cpp)\<close>

text \<open>
  A GTID is the pair of the two \<^verbatim>\<open>uint64_t\<close> members \<^verbatim>\<open>_primarySeqNo\<close> and
  \<^verbatim>\<open>_GTSeqNo\<close>. The constructor \<open>GTID p s\<close> is \<^verbatim>\<open>GTID::GTID(uint64_t, uint64_t)\<close>.
  Arithmetic on \<open>64 word\<close> wraps around, as \<^verbatim>\<open>uint64_t\<close> does.
\<close>

datatype GTID = GTID (primarySeqNo: "64 word") (GTSeqNo: "64 word")

text \<open>\<^verbatim>\<open>GTID::GTID()\<close>: both members zero.\<close>

definition GTID_default :: GTID where
  "GTID_default = GTID 0 0"

text \<open>\<^verbatim>\<open>GTID::cmp\<close>, lines 24-30. Comparison of \<^verbatim>\<open>uint64_t\<close> is unsigned, as \<open><\<close> on words is.\<close>

definition GTID_cmp :: "GTID \<Rightarrow> GTID \<Rightarrow> int" where
  "GTID_cmp a b =
     (if primarySeqNo a \<noteq> primarySeqNo b then
        (if primarySeqNo a < primarySeqNo b then - 1 else 1)
      else if GTSeqNo a = GTSeqNo b then 0
      else (if GTSeqNo a < GTSeqNo b then - 1 else 1))"

text \<open>\<^verbatim>\<open>GTID::GTIDBinarySize\<close>: \<^verbatim>\<open>2*sizeof(uint64_t)\<close>, returned as \<^verbatim>\<open>uint32_t\<close>.\<close>

definition sizeof_uint64_t :: nat where
  "sizeof_uint64_t = 8"

definition GTIDBinarySize :: "32 word" where
  "GTIDBinarySize = of_nat (2 * sizeof_uint64_t)"

text \<open>The macro \<^verbatim>\<open>SWAP64\<close>, lines 37-45, mask by mask.\<close>

definition SWAP64 :: "64 word \<Rightarrow> 64 word" where
  "SWAP64 x =
     (drop_bit 56 (x AND 0xff00000000000000) OR
      drop_bit 40 (x AND 0x00ff000000000000) OR
      drop_bit 24 (x AND 0x0000ff0000000000) OR
      drop_bit  8 (x AND 0x000000ff00000000) OR
      push_bit  8 (x AND 0x00000000ff000000) OR
      push_bit 24 (x AND 0x0000000000ff0000) OR
      push_bit 40 (x AND 0x000000000000ff00) OR
      push_bit 56 (x AND 0x00000000000000ff))"

text \<open>
  Memory. A buffer is a list of bytes, in the order of their addresses. The host is
  little-endian (x86-64), which is what the unconditional \<^verbatim>\<open>SWAP64\<close> of the source
  presumes: \<^verbatim>\<open>memcpy(pos, &v, sizeof(uint64_t))\<close> writes the least significant byte of
  \<open>v\<close> first, and \<^verbatim>\<open>*(uint64_t *)pos\<close> reads it back the same way.
\<close>

type_synonym byte = "8 word"

definition memcpy_from_u64 :: "64 word \<Rightarrow> byte list" where
  "memcpy_from_u64 v =
     [ucast v, ucast (drop_bit 8 v), ucast (drop_bit 16 v), ucast (drop_bit 24 v),
      ucast (drop_bit 32 v), ucast (drop_bit 40 v), ucast (drop_bit 48 v),
      ucast (drop_bit 56 v)]"

definition load_u64 :: "byte list \<Rightarrow> 64 word" where
  "load_u64 bs = foldr (\<lambda>b w. ucast b OR push_bit 8 w) (take sizeof_uint64_t bs) 0"

text \<open>
  \<^verbatim>\<open>GTID::serializeBinaryData\<close>, lines 66-73: the bytes written at \<^verbatim>\<open>binData\<close>.
\<close>

definition serializeBinaryData :: "GTID \<Rightarrow> byte list" where
  "serializeBinaryData g =
     (let prim = SWAP64 (primarySeqNo g);
          sec = SWAP64 (GTSeqNo g)
      in memcpy_from_u64 prim @ memcpy_from_u64 sec)"

text \<open>
  \<^verbatim>\<open>GTID::GTID(const char* binData)\<close>, lines 57-64. The source reads 16 bytes at
  \<^verbatim>\<open>binData\<close> without a check; a shorter buffer is an out-of-bounds read, \<open>None\<close> here.
\<close>

definition GTID_of_binData :: "byte list \<Rightarrow> GTID option" where
  "GTID_of_binData binData =
     (if length binData < 2 * sizeof_uint64_t then None
      else
        let swappedPrim = load_u64 binData;
            pos = drop sizeof_uint64_t binData;
            swappedSec = load_u64 pos
        in Some (GTID (SWAP64 swappedPrim) (SWAP64 swappedSec)))"

text \<open>\<^verbatim>\<open>GTID::inc\<close> and \<^verbatim>\<open>GTID::inc_primary\<close>, lines 75-82.\<close>

definition inc :: "GTID \<Rightarrow> GTID" where
  "inc g = GTID (primarySeqNo g) (GTSeqNo g + 1)"

definition inc_primary :: "GTID \<Rightarrow> GTID" where
  "inc_primary g = GTID (primarySeqNo g + 1) 0"

text \<open>
  Modelled from the spec: the order of the ordered set \<^verbatim>\<open>_liveGTIDs\<close> (its type is
  declared in gtid.h, which is not among the sources). The spec calls it an ordered set of
  GTIDs under the total order of GTIDs; that order is the one \<open>GTID_cmp\<close> decides.
\<close>

instantiation GTID :: linorder
begin

definition less_eq_GTID :: "GTID \<Rightarrow> GTID \<Rightarrow> bool" where
  "less_eq_GTID a b \<longleftrightarrow> GTID_cmp a b \<le> 0"

definition less_GTID :: "GTID \<Rightarrow> GTID \<Rightarrow> bool" where
  "less_GTID a b \<longleftrightarrow> GTID_cmp a b < 0"

instance
proof
  fix x y z :: GTID
  show "x < y \<longleftrightarrow> x \<le> y \<and> \<not> y \<le> x"
    by (cases x; cases y) (auto simp: less_GTID_def less_eq_GTID_def GTID_cmp_def)
  show "x \<le> x"
    by (simp add: less_eq_GTID_def GTID_cmp_def)
  show "x \<le> y \<Longrightarrow> y \<le> z \<Longrightarrow> x \<le> z"
    by (cases x; cases y; cases z)
       (auto simp: less_eq_GTID_def GTID_cmp_def split: if_splits)
  show "x \<le> y \<Longrightarrow> y \<le> x \<Longrightarrow> x = y"
    by (cases x; cases y) (auto simp: less_eq_GTID_def GTID_cmp_def split: if_splits)
  show "x \<le> y \<or> y \<le> x"
    by (cases x; cases y) (auto simp: less_eq_GTID_def GTID_cmp_def)
qed

end

section \<open>GTIDManager (src/mongo/db/gtid.cpp)\<close>

text \<open>
  The members of the manager. \<^verbatim>\<open>_liveGTIDs\<close> and \<^verbatim>\<open>_unappliedGTIDs\<close> are ordered sets:
  \<^verbatim>\<open>insert\<close> is \<open>finsert\<close>, \<^verbatim>\<open>erase(g)\<close> is \<open>|-| {|g|}\<close>, \<^verbatim>\<open>size()\<close> is \<open>fcard\<close> and
  \<^verbatim>\<open>*begin()\<close> of a non-empty set is its least element \<open>fMin\<close>. Every method holds
  \<^verbatim>\<open>_lock\<close> from its first statement to its last, so each is one atomic step on the state.
\<close>

record GTIDManager =
  nextLiveGTID :: GTID
  minLiveGTID :: GTID
  liveGTIDs :: "GTID fset"
  nextUnappliedGTID :: GTID
  minUnappliedGTID :: GTID
  unappliedGTIDs :: "GTID fset"

datatype error = AssertionFailure

text \<open>
  \<^verbatim>\<open>GTIDManager::GTIDManager(GTID lastGTID)\<close>, lines 88-93. The members the body does not
  assign are default-constructed: the GTIDs by \<^verbatim>\<open>GTID::GTID()\<close>, the sets empty.
\<close>

definition GTIDManager_ctor :: "GTID \<Rightarrow> GTIDManager" where
  "GTIDManager_ctor lastGTID =
     (let m0 = \<lparr>nextLiveGTID = GTID_default, minLiveGTID = GTID_default, liveGTIDs = {||},
                 nextUnappliedGTID = GTID_default, minUnappliedGTID = GTID_default,
                 unappliedGTIDs = {||}\<rparr>;
          m1 = m0\<lparr>nextLiveGTID := lastGTID\<rparr>;
          m2 = m1\<lparr>nextLiveGTID := inc (nextLiveGTID m1)\<rparr>
      in m2\<lparr>minLiveGTID := nextLiveGTID m2\<rparr>)"

text \<open>\<^verbatim>\<open>GTIDManager::getGTIDForPrimary\<close>, lines 105-113: the GTID returned and the new state.\<close>

definition getGTIDForPrimary :: "GTIDManager \<Rightarrow> GTID \<times> GTIDManager" where
  "getGTIDForPrimary m =
     (let ret = nextLiveGTID m;
          m1 = m\<lparr>liveGTIDs := finsert ret (liveGTIDs m)\<rparr>;
          m2 = m1\<lparr>nextLiveGTID := inc (nextLiveGTID m1)\<rparr>
      in (ret, m2))"

text \<open>
  \<^verbatim>\<open>dassert\<close> is checked in a debug build only; \<open>debug\<close> says which build runs. The two
  conditions of \<^verbatim>\<open>noteLiveGTIDDone\<close>, lines 123-124, are its precondition.
\<close>

definition noteLiveGTIDDone_pre :: "GTID \<Rightarrow> GTIDManager \<Rightarrow> bool" where
  "noteLiveGTIDDone_pre gtid m \<longleftrightarrow>
     GTID_cmp gtid (minLiveGTID m) \<ge> 0 \<and> fcard (liveGTIDs m) > 0"

text \<open>\<^verbatim>\<open>GTIDManager::noteLiveGTIDDone\<close>, lines 121-141.\<close>

definition noteLiveGTIDDone :: "bool \<Rightarrow> GTID \<Rightarrow> GTIDManager \<Rightarrow> error + GTIDManager" where
  "noteLiveGTIDDone debug gtid m =
     (if debug \<and> \<not> noteLiveGTIDDone_pre gtid m then Inl AssertionFailure
      else
        let m1 = m\<lparr>liveGTIDs := liveGTIDs m |-| {|gtid|}\<rparr> in
        if GTID_cmp (minLiveGTID m1) gtid = 0 then
          let m2 = (if fcard (liveGTIDs m1) = 0
                    then m1\<lparr>minLiveGTID := nextLiveGTID m1\<rparr>
                    else m1\<lparr>minLiveGTID := fMin (liveGTIDs m1)\<rparr>)
          in Inr (m2\<lparr>minUnappliedGTID := minLiveGTID m2\<rparr>)
        else Inr m1)"

text \<open>\<^verbatim>\<open>GTIDManager::noteGTIDAdded\<close>, lines 146-155.\<close>

definition noteGTIDAdded_pre :: "GTID \<Rightarrow> GTIDManager \<Rightarrow> bool" where
  "noteGTIDAdded_pre gtid m \<longleftrightarrow>
     GTID_cmp (nextLiveGTID m) (minLiveGTID m) = 0 \<and> GTID_cmp (nextLiveGTID m) gtid \<le> 0"

definition noteGTIDAdded :: "bool \<Rightarrow> GTID \<Rightarrow> GTIDManager \<Rightarrow> error + GTIDManager" where
  "noteGTIDAdded debug gtid m =
     (if debug \<and> \<not> noteGTIDAdded_pre gtid m then Inl AssertionFailure
      else Inr (m\<lparr>nextLiveGTID := gtid, minLiveGTID := gtid\<rparr>))"

text \<open>\<^verbatim>\<open>GTIDManager::noteApplyingGTID\<close>, lines 159-171.\<close>

definition noteApplyingGTID_pre :: "GTID \<Rightarrow> GTIDManager \<Rightarrow> bool" where
  "noteApplyingGTID_pre gtid m \<longleftrightarrow>
     GTID_cmp gtid (minUnappliedGTID m) > 0 \<and> GTID_cmp gtid (nextUnappliedGTID m) \<ge> 0"

definition noteApplyingGTID :: "bool \<Rightarrow> GTID \<Rightarrow> GTIDManager \<Rightarrow> error + GTIDManager" where
  "noteApplyingGTID debug gtid m =
     (if debug \<and> \<not> noteApplyingGTID_pre gtid m then Inl AssertionFailure
      else
        let m1 = (if fcard (unappliedGTIDs m) = 0 then m\<lparr>minUnappliedGTID := gtid\<rparr> else m);
            m2 = m1\<lparr>unappliedGTIDs := finsert gtid (unappliedGTIDs m1)\<rparr>;
            m3 = m2\<lparr>nextUnappliedGTID := gtid\<rparr>
        in Inr (m3\<lparr>nextUnappliedGTID := inc (nextUnappliedGTID m3)\<rparr>))"

text \<open>\<^verbatim>\<open>GTIDManager::noteGTIDApplied\<close>, lines 175-193.\<close>

definition noteGTIDApplied_pre :: "GTID \<Rightarrow> GTIDManager \<Rightarrow> bool" where
  "noteGTIDApplied_pre gtid m \<longleftrightarrow>
     GTID_cmp gtid (minUnappliedGTID m) \<ge> 0 \<and> fcard (unappliedGTIDs m) > 0"

definition noteGTIDApplied :: "bool \<Rightarrow> GTID \<Rightarrow> GTIDManager \<Rightarrow> error + GTIDManager" where
  "noteGTIDApplied debug gtid m =
     (if debug \<and> \<not> noteGTIDApplied_pre gtid m then Inl AssertionFailure
      else
        let m1 = m\<lparr>unappliedGTIDs := unappliedGTIDs m |-| {|gtid|}\<rparr> in
        if GTID_cmp (minUnappliedGTID m1) gtid = 0 then
          (if fcard (unappliedGTIDs m1) = 0
           then Inr (m1\<lparr>minUnappliedGTID := nextUnappliedGTID m1\<rparr>)
           else Inr (m1\<lparr>minUnappliedGTID := fMin (unappliedGTIDs m1)\<rparr>))
        else Inr m1)"

text \<open>\<^verbatim>\<open>GTIDManager::getMins\<close>, lines 196-201: the two out-parameters.\<close>

definition getMins :: "GTIDManager \<Rightarrow> GTID \<times> GTID" where
  "getMins m = (minLiveGTID m, minUnappliedGTID m)"

text \<open>\<^verbatim>\<open>GTIDManager::resetManager\<close>, lines 203-211.\<close>

definition resetManager_pre :: "GTIDManager \<Rightarrow> bool" where
  "resetManager_pre m \<longleftrightarrow> fcard (liveGTIDs m) = 0"

definition resetManager :: "bool \<Rightarrow> GTID \<Rightarrow> GTIDManager \<Rightarrow> error + GTIDManager" where
  "resetManager debug lastGTID m =
     (if debug \<and> \<not> resetManager_pre m then Inl AssertionFailure
      else
        let m1 = m\<lparr>nextLiveGTID := lastGTID\<rparr>;
            m2 = m1\<lparr>nextLiveGTID := inc_primary (nextLiveGTID m1)\<rparr>
        in Inr (m2\<lparr>minLiveGTID := nextLiveGTID m2\<rparr>))"


text \<open>
  A client of the manager: a sequence of calls, run one after the other from a state. The
  trace holds, for each call, the GTID it returned (if it returns one) and the state it
  left. A failed assertion ends the run.
\<close>

datatype op =
    GetGTIDForPrimary
  | NoteLiveGTIDDone GTID
  | NoteGTIDAdded GTID
  | NoteApplyingGTID GTID
  | NoteGTIDApplied GTID
  | ResetManager GTID

fun is_reset :: "op \<Rightarrow> bool" where
  "is_reset (ResetManager g) = True"
| "is_reset c = False"

fun is_primary_op :: "op \<Rightarrow> bool" where
  "is_primary_op GetGTIDForPrimary = True"
| "is_primary_op (NoteLiveGTIDDone g) = True"
| "is_primary_op c = False"

definition no_result :: "error + GTIDManager \<Rightarrow> error + GTID option \<times> GTIDManager" where
  "no_result r = (case r of Inl e \<Rightarrow> Inl e | Inr m \<Rightarrow> Inr (None, m))"

fun call :: "bool \<Rightarrow> op \<Rightarrow> GTIDManager \<Rightarrow> error + GTID option \<times> GTIDManager" where
  "call debug GetGTIDForPrimary m =
     (case getGTIDForPrimary m of (ret, m') \<Rightarrow> Inr (Some ret, m'))"
| "call debug (NoteLiveGTIDDone g) m = no_result (noteLiveGTIDDone debug g m)"
| "call debug (NoteGTIDAdded g) m = no_result (noteGTIDAdded debug g m)"
| "call debug (NoteApplyingGTID g) m = no_result (noteApplyingGTID debug g m)"
| "call debug (NoteGTIDApplied g) m = no_result (noteGTIDApplied debug g m)"
| "call debug (ResetManager g) m = no_result (resetManager debug g m)"

fun run :: "bool \<Rightarrow> op list \<Rightarrow> GTIDManager \<Rightarrow> error + (GTID option \<times> GTIDManager) list" where
  "run debug [] m = Inr []"
| "run debug (c # cs) m =
     (case call debug c m of
        Inl e \<Rightarrow> Inl e
      | Inr (r, m') \<Rightarrow>
          (case run debug cs m' of Inl e \<Rightarrow> Inl e | Inr tr \<Rightarrow> Inr ((r, m') # tr)))"

text \<open>The GTIDs that the calls of a trace returned, in the order of the calls.\<close>

fun allocations :: "(GTID option \<times> GTIDManager) list \<Rightarrow> GTID list" where
  "allocations [] = []"
| "allocations ((Some a, m) # tr) = a # allocations tr"
| "allocations ((None, m) # tr) = allocations tr"

text \<open>
  The invariant as the specification words it: \<^verbatim>\<open>minLiveGTID\<close> is at most every live
  GTID, every live GTID is at most \<^verbatim>\<open>nextLiveGTID\<close>, and the two are equal when no GTID
  is live.
\<close>

definition live_invariant :: "GTIDManager \<Rightarrow> bool" where
  "live_invariant m \<longleftrightarrow>
     (\<forall>g \<in> fset (liveGTIDs m). minLiveGTID m \<le> g \<and> g \<le> nextLiveGTID m) \<and>
     (liveGTIDs m = {||} \<longrightarrow> minLiveGTID m = nextLiveGTID m)"

text \<open>
  The invariant the operations keep: every live GTID is strictly below \<^verbatim>\<open>nextLiveGTID\<close>,
  \<^verbatim>\<open>minLiveGTID\<close> is the least live GTID when there is one, and \<^verbatim>\<open>nextLiveGTID\<close>
  otherwise.
\<close>

definition live_invariant_strict :: "GTIDManager \<Rightarrow> bool" where
  "live_invariant_strict m \<longleftrightarrow>
     (\<forall>g \<in> fset (liveGTIDs m). g < nextLiveGTID m) \<and>
     minLiveGTID m = (if liveGTIDs m = {||} then nextLiveGTID m else fMin (liveGTIDs m))"

section \<open>Collection (src/mongo/db/collection.h)\<close>

text \<open>\<^verbatim>\<open>Collection::NIndexesMax\<close> and the flags of write operations, lines 87-93.\<close>

definition NIndexesMax :: "32 word" where
  "NIndexesMax = 64"

definition NO_LOCKTREE :: "64 word" where
  "NO_LOCKTREE = 1"

definition NO_UNIQUE_CHECKS :: "64 word" where
  "NO_UNIQUE_CHECKS = 2"

definition KEYS_UNAFFECTED_HINT :: "64 word" where
  "KEYS_UNAFFECTED_HINT = 4"

definition NO_PK_UNIQUE_CHECKS :: "64 word" where
  "NO_PK_UNIQUE_CHECKS = 8"

text \<open>
  The members of \<^verbatim>\<open>CollectionBase\<close> that \<^verbatim>\<open>nIndexesBeingBuilt\<close> and \<^verbatim>\<open>idx\<close> read:
  \<^verbatim>\<open>_indexBuildInProgress\<close>, \<^verbatim>\<open>_nIndexes\<close> (an \<^verbatim>\<open>int\<close>, 32 bits, read through
  \<open>sint\<close>) and the vector \<^verbatim>\<open>_indexes\<close>, whose elements \<open>'i\<close> stand for the
  \<^verbatim>\<open>IndexDetails\<close>. The accessors \<^verbatim>\<open>indexBuildInProgress()\<close> and \<^verbatim>\<open>nIndexes()\<close> return
  the first two as they are.
\<close>

record 'i CollectionBase =
  indexBuildInProgress :: bool
  nIndexes :: "32 word"
  indexes :: "'i list"

text \<open>
  \<^verbatim>\<open>(int) _indexes.size()\<close>: the conversion of the \<^verbatim>\<open>size_t\<close> to \<^verbatim>\<open>int\<close> keeps the low
  32 bits.
\<close>

definition size_int :: "'i list \<Rightarrow> 32 word" where
  "size_int xs = of_nat (length xs)"

text \<open>
  \<^verbatim>\<open>CollectionBase::nIndexesBeingBuilt\<close>, lines 417-424. \<^verbatim>\<open>verify\<close> is checked in every
  build; a failed one is \<open>Inl AssertionFailure\<close>.
\<close>

definition nIndexesBeingBuilt :: "'i CollectionBase \<Rightarrow> error + 32 word" where
  "nIndexesBeingBuilt c =
     (if indexBuildInProgress c then
        (if \<not> (nIndexes c + 1 = size_int (indexes c)) then Inl AssertionFailure
         else Inr (size_int (indexes c)))
      else
        (if \<not> (nIndexes c = size_int (indexes c)) then Inl AssertionFailure
         else Inr (size_int (indexes c))))"

text \<open>\<^verbatim>\<open>CollectionBase::idx\<close>, lines 426-430. The comparisons are those of \<^verbatim>\<open>int\<close>.\<close>

definition idx :: "'i CollectionBase \<Rightarrow> 32 word \<Rightarrow> error + 'i" where
  "idx c idxNo =
     (if \<not> (sint idxNo < sint NIndexesMax) then Inl AssertionFailure
      else if \<not> (sint idxNo \<ge> 0 \<and> sint idxNo < sint (size_int (indexes c)))
        then Inl AssertionFailure
      else Inr (indexes c ! nat (sint idxNo)))"

section \<open>Auxiliary definitions\<close>

text \<open>Byte \<open>k\<close> of a 64-bit value, counted from the least significant one.\<close>

definition byte_of :: "64 word \<Rightarrow> nat \<Rightarrow> byte" where
  "byte_of x k = ucast (drop_bit (8 * k) x)"

text \<open>The \<open>n\<close> low bytes of a value, most significant first.\<close>

fun be_bytes :: "nat \<Rightarrow> 64 word \<Rightarrow> byte list" where
  "be_bytes 0 x = []"
| "be_bytes (Suc n) x = be_bytes n (drop_bit 8 x) @ [ucast x]"

text \<open>
  States of a manager on a primary, for the scenarios below: the unapplied side holds what
  the constructor left there, but for \<^verbatim>\<open>_minUnappliedGTID\<close>.
\<close>

definition primary_state :: "GTID \<Rightarrow> GTID \<Rightarrow> GTID fset \<Rightarrow> GTID \<Rightarrow> GTIDManager" where
  "primary_state nxt mn live mu =
     \<lparr>nextLiveGTID = nxt, minLiveGTID = mn, liveGTIDs = live,
      nextUnappliedGTID = GTID_default, minUnappliedGTID = mu, unappliedGTIDs = {||}\<rparr>"

text \<open>
  Scenario S6 of the specification: two allocations, both completed, then a reset and a
  third allocation; and the trace it leaves from \<^verbatim>\<open>GTIDManager(GTID(5,7))\<close>.
\<close>

definition scenario_S6_calls :: "op list" where
  "scenario_S6_calls =
     [GetGTIDForPrimary, GetGTIDForPrimary, NoteLiveGTIDDone (GTID 5 8),
      NoteLiveGTIDDone (GTID 5 9), ResetManager (GTID 5 9), GetGTIDForPrimary]"

definition scenario_S6_trace :: "(GTID option \<times> GTIDManager) list" where
  "scenario_S6_trace =
     [(Some (GTID 5 8), primary_state (GTID 5 9) (GTID 5 8) {|GTID 5 8|} (GTID 0 0)),
      (Some (GTID 5 9), primary_state (GTID 5 10) (GTID 5 8) {|GTID 5 9, GTID 5 8|} (GTID 0 0)),
      (None, primary_state (GTID 5 10) (GTID 5 9) {|GTID 5 9|} (GTID 5 9)),
      (None, primary_state (GTID 5 10) (GTID 5 10) {||} (GTID 5 10)),
      (None, primary_state (GTID 6 0) (GTID 6 0) {||} (GTID 5 10)),
      (Some (GTID 6 0), primary_state (GTID 6 1) (GTID 6 0) {|GTID 6 0|} (GTID 5 10))]"


text \<open>
  A step-up: calls on the state that the reset of scenario S6 leaves, in which GTIDs are
  first noted as added and then allocated; and the trace they leave.
\<close>

definition step_up_calls :: "op list" where
  "step_up_calls =
     [NoteGTIDAdded (GTID 6 5), GetGTIDForPrimary, GetGTIDForPrimary,
      NoteLiveGTIDDone (GTID 6 5)]"

definition step_up_trace :: "(GTID option \<times> GTIDManager) list" where
  "step_up_trace =
     [(None, primary_state (GTID 6 5) (GTID 6 5) {||} (GTID 5 10)),
      (Some (GTID 6 5), primary_state (GTID 6 6) (GTID 6 5) {|GTID 6 5|} (GTID 5 10)),
      (Some (GTID 6 6), primary_state (GTID 6 7) (GTID 6 5) {|GTID 6 6, GTID 6 5|} (GTID 5 10)),
      (None, primary_state (GTID 6 7) (GTID 6 6) {|GTID 6 6|} (GTID 6 6))]"


section \<open>The order of GTIDs\<close>

lemma GTID_cmp_le_0: "GTID_cmp a b \<le> 0 \<longleftrightarrow> a \<le> b"
  by (simp add: less_eq_GTID_def)

lemma GTID_cmp_less_0: "GTID_cmp a b < 0 \<longleftrightarrow> a < b"
  by (simp add: less_GTID_def)

lemma GTID_cmp_eq_0: "GTID_cmp a b = 0 \<longleftrightarrow> a = b"
  by (cases a; cases b) (auto simp add: GTID_cmp_def)

lemma GTID_cmp_ge_0: "GTID_cmp a b \<ge> 0 \<longleftrightarrow> b \<le> a"
  by (cases a; cases b) (auto simp add: less_eq_GTID_def GTID_cmp_def)

lemma GTID_cmp_greater_0: "GTID_cmp a b > 0 \<longleftrightarrow> b < a"
  by (cases a; cases b) (auto simp add: less_GTID_def GTID_cmp_def)

lemma GTID_cmp_refl: "GTID_cmp a a = 0"
  by (simp add: GTID_cmp_def)

lemmas GTID_cmp_order =
  GTID_cmp_le_0 GTID_cmp_less_0 GTID_cmp_eq_0 GTID_cmp_ge_0 GTID_cmp_greater_0

lemma GTID_less_iff:
  "a < b \<longleftrightarrow> primarySeqNo a < primarySeqNo b \<or>
     (primarySeqNo a = primarySeqNo b \<and> GTSeqNo a < GTSeqNo b)"
  by (auto simp add: less_GTID_def GTID_cmp_def)

text \<open>
  Claim C7. \<^verbatim>\<open>GTID::cmp\<close> is the lexicographic order on the pair
  \<open>(primarySeqNo, GTSeqNo)\<close>: its result is negative exactly when the first GTID is
  below the second in that order, zero exactly when both members are equal, and positive
  in every other case, which is when the second is below the first. The order \<open><\<close> of
  GTIDs is the one it decides.
\<close>

theorem GTID_cmp_lexicographic:
  "(GTID_cmp a b < 0 \<longleftrightarrow>
      primarySeqNo a < primarySeqNo b \<or>
      (primarySeqNo a = primarySeqNo b \<and> GTSeqNo a < GTSeqNo b)) \<and>
   (GTID_cmp a b = 0 \<longleftrightarrow> primarySeqNo a = primarySeqNo b \<and> GTSeqNo a = GTSeqNo b) \<and>
   (GTID_cmp a b > 0 \<longleftrightarrow> \<not> GTID_cmp a b < 0 \<and> \<not> GTID_cmp a b = 0) \<and>
   (GTID_cmp a b > 0 \<longleftrightarrow>
      primarySeqNo b < primarySeqNo a \<or>
      (primarySeqNo a = primarySeqNo b \<and> GTSeqNo b < GTSeqNo a)) \<and>
   (a < b \<longleftrightarrow> GTID_cmp a b < 0) \<and> (a = b \<longleftrightarrow> GTID_cmp a b = 0) \<and>
   (b < a \<longleftrightarrow> GTID_cmp a b > 0)"
  by (cases a; cases b) (auto simp add: GTID_cmp_def less_GTID_def)

section \<open>The binary codec\<close>

lemma and_shifted_mask:
  "(x :: 64 word) AND push_bit b (mask 8) = push_bit b (take_bit 8 (drop_bit b x))"
  by (rule bit_word_eqI) (auto simp add: bit_simps)

lemma drop_push_take:
  "a \<le> b \<Longrightarrow> b \<le> 56 \<Longrightarrow>
   drop_bit a (push_bit b (take_bit 8 y :: 64 word)) = push_bit (b - a) (take_bit 8 y)"
  by (rule bit_word_eqI) (auto simp add: bit_simps add.commute)

lemma SWAP64_masks:
  "(0xff00000000000000 :: 64 word) = push_bit 56 (mask 8)"
  "(0x00ff000000000000 :: 64 word) = push_bit 48 (mask 8)"
  "(0x0000ff0000000000 :: 64 word) = push_bit 40 (mask 8)"
  "(0x000000ff00000000 :: 64 word) = push_bit 32 (mask 8)"
  "(0x00000000ff000000 :: 64 word) = push_bit 24 (mask 8)"
  "(0x0000000000ff0000 :: 64 word) = push_bit 16 (mask 8)"
  "(0x000000000000ff00 :: 64 word) = push_bit 8 (mask 8)"
  "(0x00000000000000ff :: 64 word) = mask 8"
  by (simp_all add: mask_eq_exp_minus_1)

lemma SWAP64_shape: "SWAP64 x =
     (take_bit 8 (drop_bit 56 x) OR
      push_bit 8 (take_bit 8 (drop_bit 48 x)) OR
      push_bit 16 (take_bit 8 (drop_bit 40 x)) OR
      push_bit 24 (take_bit 8 (drop_bit 32 x)) OR
      push_bit 32 (take_bit 8 (drop_bit 24 x)) OR
      push_bit 40 (take_bit 8 (drop_bit 16 x)) OR
      push_bit 48 (take_bit 8 (drop_bit 8 x)) OR
      push_bit 56 (take_bit 8 x))"
  unfolding SWAP64_def SWAP64_masks and_shifted_mask
  by (simp add: drop_push_take push_bit_add flip: push_bit_and take_bit_eq_mask)

lemma byte_of_or: "byte_of (x OR y) k = byte_of x k OR byte_of y k"
  by (simp add: byte_of_def unsigned_or_eq)

lemma byte_of_push_take:
  "j < 8 \<Longrightarrow> byte_of (push_bit (8 * j) (take_bit 8 y)) k = (if k = j then ucast y else 0)"
  apply (rule bit_word_eqI)
  apply (simp add: byte_of_def bit_simps)
  apply arith
  done

lemma byte_of_take0:
  "byte_of (take_bit 8 y) k = (if k = 0 then ucast y else 0)"
  using byte_of_push_take [of 0 y k] by simp

lemmas byte_of_push_take_n =
  byte_of_push_take [of 1, simplified] byte_of_push_take [of 2, simplified]
  byte_of_push_take [of 3, simplified] byte_of_push_take [of 4, simplified]
  byte_of_push_take [of 5, simplified] byte_of_push_take [of 6, simplified]
  byte_of_push_take [of 7, simplified] byte_of_take0

lemma byte_of_SWAP64: "k < 8 \<Longrightarrow> byte_of (SWAP64 x) k = byte_of x (7 - k)"
proof -
  assume "k < 8"
  then consider "k = 0" | "k = 1" | "k = 2" | "k = 3" | "k = 4" | "k = 5" | "k = 6" | "k = 7"
    by linarith
  then show ?thesis
    unfolding SWAP64_shape byte_of_or byte_of_push_take_n
    by cases (simp_all add: byte_of_def)
qed

lemma bit_byte_of: "bit (byte_of x k) j \<longleftrightarrow> j < 8 \<and> bit x (8 * k + j)"
  by (auto simp add: byte_of_def bit_simps)

lemma word_eq_bytes:
  assumes "\<And>k. k < 8 \<Longrightarrow> byte_of x k = byte_of y k"
  shows "x = y"
proof (rule bit_word_eqI)
  fix n assume "n < LENGTH(64)"
  then have k: "n div 8 < 8" and j: "n mod 8 < 8" by simp_all
  have n: "8 * (n div 8) + n mod 8 = n" by simp
  have "bit x n = bit (byte_of x (n div 8)) (n mod 8)"
    using j by (simp add: bit_byte_of n)
  also have "\<dots> = bit (byte_of y (n div 8)) (n mod 8)"
    using assms [OF k] by simp
  also have "\<dots> = bit y n"
    using j by (simp add: bit_byte_of n)
  finally show "bit x n = bit y n" .
qed

lemma SWAP64_SWAP64: "SWAP64 (SWAP64 x) = x"
  by (rule word_eq_bytes) (simp add: byte_of_SWAP64)


lemma memcpy_from_u64_bytes:
  "memcpy_from_u64 v = [byte_of v 0, byte_of v 1, byte_of v 2, byte_of v 3,
                        byte_of v 4, byte_of v 5, byte_of v 6, byte_of v 7]"
  by (simp add: memcpy_from_u64_def byte_of_def)

lemma be_bytes_8:
  "be_bytes 8 x = [byte_of x 7, byte_of x 6, byte_of x 5, byte_of x 4,
                   byte_of x 3, byte_of x 2, byte_of x 1, byte_of x 0]"
  by (simp add: eval_nat_numeral byte_of_def)

lemma memcpy_SWAP64: "memcpy_from_u64 (SWAP64 x) = be_bytes 8 x"
  by (simp add: memcpy_from_u64_bytes be_bytes_8 byte_of_SWAP64)

lemma byte_of_push_ucast:
  "j < 8 \<Longrightarrow> byte_of (push_bit (8 * j) (ucast (b :: byte))) k = (if k = j then b else 0)"
proof -
  have u: "(ucast b :: 64 word) = take_bit 8 (ucast b)"
    by (rule bit_word_eqI) (auto simp add: bit_simps dest: bit_imp_le_length)
  have v: "(ucast (ucast b :: 64 word) :: byte) = b"
    by (rule bit_word_eqI) (simp add: bit_simps)
  assume "j < 8"
  then show ?thesis
    by (subst u) (simp add: byte_of_push_take v)
qed

lemma length_memcpy_from_u64: "length (memcpy_from_u64 v) = 8"
  by (simp add: memcpy_from_u64_def)

lemma load_u64_8:
  "load_u64 ([b0, b1, b2, b3, b4, b5, b6, b7] @ rest) =
     (ucast b0 OR push_bit 8 (ucast b1) OR push_bit 16 (ucast b2) OR push_bit 24 (ucast b3) OR
      push_bit 32 (ucast b4) OR push_bit 40 (ucast b5) OR push_bit 48 (ucast b6) OR
      push_bit 56 (ucast b7))"
  by (simp add: load_u64_def sizeof_uint64_t_def push_bit_or push_bit_add)


lemmas byte_of_push_ucast_n =
  byte_of_push_ucast [of 0, simplified]
  byte_of_push_ucast [of 1, simplified] byte_of_push_ucast [of 2, simplified]
  byte_of_push_ucast [of 3, simplified] byte_of_push_ucast [of 4, simplified]
  byte_of_push_ucast [of 5, simplified] byte_of_push_ucast [of 6, simplified]
  byte_of_push_ucast [of 7, simplified]

lemma load_u64_memcpy: "load_u64 (memcpy_from_u64 v @ rest) = v"
proof (rule word_eq_bytes)
  fix k :: nat assume "k < 8"
  then consider "k = 0" | "k = 1" | "k = 2" | "k = 3" | "k = 4" | "k = 5" | "k = 6" | "k = 7"
    by linarith
  then show "byte_of (load_u64 (memcpy_from_u64 v @ rest)) k = byte_of v k"
    unfolding memcpy_from_u64_bytes load_u64_8 byte_of_or byte_of_push_ucast_n
    by cases simp_all
qed



lemma lex_digits:
  "r < 256 \<Longrightarrow> r' < 256 \<Longrightarrow>
   (256 * q + r < 256 * q' + r') \<longleftrightarrow> q < q' \<or> (q = q' \<and> r < r')" for q r q' r' :: nat
  by auto

lemma nat_less_div_mod:
  "(a :: nat) < b \<longleftrightarrow> a div 256 < b div 256 \<or> (a div 256 = b div 256 \<and> a mod 256 < b mod 256)"
proof -
  have "a < b \<longleftrightarrow> 256 * (a div 256) + a mod 256 < 256 * (b div 256) + b mod 256"
    by simp
  also have "\<dots> \<longleftrightarrow> a div 256 < b div 256 \<or> (a div 256 = b div 256 \<and> a mod 256 < b mod 256)"
    by (rule lex_digits) simp_all
  finally show ?thesis .
qed

lemma nat_eq_div_mod:
  "(a :: nat) = b \<longleftrightarrow> a div 256 = b div 256 \<and> a mod 256 = b mod 256"
  by (metis div_mult_mod_eq)


lemma unat_drop_bit_8: "unat (drop_bit 8 w) = unat w div 256" for w :: "64 word"
  by (simp add: drop_bit_eq_div unat_div)


lemma unat_ucast_byte: "unat (ucast w :: byte) = unat w mod 256" for w :: "64 word"
  by (simp add: unsigned_ucast_eq take_bit_eq_mod)


lemma word_less_split:
  "(x :: 64 word) < y \<longleftrightarrow>
     drop_bit 8 x < drop_bit 8 y \<or>
     (drop_bit 8 x = drop_bit 8 y \<and> (ucast x :: byte) < ucast y)"
  unfolding word_less_nat_alt word_unat_eq_iff unat_drop_bit_8 unat_ucast_byte
  by (rule nat_less_div_mod)


lemma word_eq_split:
  "(x :: 64 word) = y \<longleftrightarrow> drop_bit 8 x = drop_bit 8 y \<and> (ucast x :: byte) = ucast y"
  unfolding word_unat_eq_iff unat_drop_bit_8 unat_ucast_byte
  by (rule nat_eq_div_mod)


lemma snoc_less_snoc:
  "length xs = length ys \<Longrightarrow>
   xs @ [a] < ys @ [b] \<longleftrightarrow> xs < ys \<or> (xs = ys \<and> a < b)"
  by (induction xs ys rule: list_induct2) auto


lemma length_be_bytes: "length (be_bytes n x) = n"
  by (induction n arbitrary: x) simp_all


lemma drop_take_Suc:
  "drop_bit 8 (take_bit (8 * Suc n) w) = take_bit (8 * n) (drop_bit 8 w)" for w :: "64 word"
  by (rule bit_word_eqI) (auto simp add: bit_simps)


lemma ucast_take_Suc:
  "(ucast (take_bit (8 * Suc n) w) :: byte) = ucast w" for w :: "64 word"
  by (rule bit_word_eqI) (auto simp add: bit_simps)



lemma take_bit_64: "take_bit 64 (x :: 64 word) = x"
  by (rule bit_word_eqI) (simp add: bit_simps)

lemma be_bytes_order:
  "(be_bytes n x < be_bytes n y \<longleftrightarrow> take_bit (8 * n) x < take_bit (8 * n) y) \<and>
   (be_bytes n x = be_bytes n y \<longleftrightarrow> take_bit (8 * n) x = take_bit (8 * n) y)"
proof (induction n arbitrary: x y)
  case 0
  show ?case by simp
next
  case (Suc n)
  let ?x = "take_bit (8 * Suc n) x" and ?y = "take_bit (8 * Suc n) y"
  note IH = Suc.IH [of "drop_bit 8 x" "drop_bit 8 y"]
  have less: "?x < ?y \<longleftrightarrow>
      take_bit (8 * n) (drop_bit 8 x) < take_bit (8 * n) (drop_bit 8 y) \<or>
      (take_bit (8 * n) (drop_bit 8 x) = take_bit (8 * n) (drop_bit 8 y) \<and>
       (ucast x :: byte) < ucast y)"
    using word_less_split [of ?x ?y] unfolding drop_take_Suc ucast_take_Suc .
  have eq: "?x = ?y \<longleftrightarrow>
      take_bit (8 * n) (drop_bit 8 x) = take_bit (8 * n) (drop_bit 8 y) \<and>
      (ucast x :: byte) = ucast y"
    using word_eq_split [of ?x ?y] unfolding drop_take_Suc ucast_take_Suc .
  show ?case
    unfolding less eq using IH by (simp add: snoc_less_snoc length_be_bytes)
qed

lemma be_bytes_8_less: "be_bytes 8 x < be_bytes 8 y \<longleftrightarrow> x < y"
  using be_bytes_order [of 8 x y] by (simp add: take_bit_64)

lemma be_bytes_8_eq: "be_bytes 8 x = be_bytes 8 y \<longleftrightarrow> x = y"
  using be_bytes_order [of 8 x y] by (simp add: take_bit_64)

lemma append_less_append:
  "length xs = length ys \<Longrightarrow>
   xs @ us < ys @ vs \<longleftrightarrow> xs < ys \<or> (xs = ys \<and> us < vs)"
  by (induction xs ys rule: list_induct2) auto

lemma serializeBinaryData_be:
  "serializeBinaryData g = be_bytes 8 (primarySeqNo g) @ be_bytes 8 (GTSeqNo g)"
  by (simp add: serializeBinaryData_def memcpy_SWAP64)

lemma length_serializeBinaryData: "length (serializeBinaryData g) = 16"
  by (simp add: serializeBinaryData_def length_memcpy_from_u64)

lemma GTID_of_serializeBinaryData: "GTID_of_binData (serializeBinaryData g) = Some g"
  unfolding GTID_of_binData_def Let_def length_serializeBinaryData
  by (simp add: sizeof_uint64_t_def serializeBinaryData_def length_memcpy_from_u64
      load_u64_memcpy load_u64_memcpy [where rest = "[]", simplified] SWAP64_SWAP64)

lemma serializeBinaryData_less:
  "serializeBinaryData a < serializeBinaryData b \<longleftrightarrow> a < b"
  by (simp add: serializeBinaryData_be append_less_append length_be_bytes
      be_bytes_8_less be_bytes_8_eq GTID_less_iff)

lemma serializeBinaryData_eq:
  "serializeBinaryData a = serializeBinaryData b \<longleftrightarrow> a = b"
  by (cases a; cases b) (simp add: serializeBinaryData_be length_be_bytes be_bytes_8_eq)

text \<open>
  Claim C1. The encoding of a GTID has \<^verbatim>\<open>GTIDBinarySize() = 16\<close> bytes, decoding it gives
  the GTID back, and the encodings compare byte by byte, lexicographically and with bytes
  read as unsigned (the order \<open><\<close> of byte lists), as the GTIDs compare: below, equal
  or above, as \<^verbatim>\<open>GTID::cmp\<close> is negative, zero or positive.
\<close>

theorem GTID_codec_roundtrip_order:
  "length (serializeBinaryData g) = unat GTIDBinarySize \<and> unat GTIDBinarySize = 16 \<and>
   GTID_of_binData (serializeBinaryData g) = Some g \<and>
   (serializeBinaryData g1 < serializeBinaryData g2 \<longleftrightarrow> g1 < g2) \<and>
   (serializeBinaryData g1 = serializeBinaryData g2 \<longleftrightarrow> g1 = g2) \<and>
   (serializeBinaryData g1 < serializeBinaryData g2 \<longleftrightarrow> GTID_cmp g1 g2 < 0) \<and>
   (serializeBinaryData g1 = serializeBinaryData g2 \<longleftrightarrow> GTID_cmp g1 g2 = 0) \<and>
   (serializeBinaryData g2 < serializeBinaryData g1 \<longleftrightarrow> GTID_cmp g1 g2 > 0)"
proof -
  have size: "unat GTIDBinarySize = 16"
    by (simp add: GTIDBinarySize_def sizeof_uint64_t_def)
  show ?thesis
    using length_serializeBinaryData [of g] size GTID_of_serializeBinaryData [of g]
      serializeBinaryData_less [of g1 g2] serializeBinaryData_less [of g2 g1]
      serializeBinaryData_eq [of g1 g2]
    by (simp add: GTID_cmp_order)
qed

text \<open>Scenario S7 of the specification: the bytes of \<^verbatim>\<open>GTID(1,2)\<close>.\<close>

lemma scenario_S7:
  "serializeBinaryData (GTID 1 2) = [0, 0, 0, 0, 0, 0, 0, 1, 0, 0, 0, 0, 0, 0, 0, 2] \<and>
   GTID_of_binData [0, 0, 0, 0, 0, 0, 0, 1, 0, 0, 0, 0, 0, 0, 0, 2] = Some (GTID 1 2)"
  by (simp add: serializeBinaryData_def GTID_of_binData_def memcpy_from_u64_def load_u64_def
      SWAP64_def sizeof_uint64_t_def)

section \<open>The flags of write operations\<close>

text \<open>
  Claim C9. The four flags of write operations are the bits 0 to 3:
  \<^verbatim>\<open>NO_LOCKTREE\<close> is 1, \<^verbatim>\<open>NO_UNIQUE_CHECKS\<close> is 2, \<^verbatim>\<open>KEYS_UNAFFECTED_HINT\<close> is 4 and
  \<^verbatim>\<open>NO_PK_UNIQUE_CHECKS\<close> is 8.
\<close>

theorem write_flag_bits:
  "NO_LOCKTREE = 1 \<and> NO_LOCKTREE = push_bit 0 1 \<and>
   NO_UNIQUE_CHECKS = 2 \<and> NO_UNIQUE_CHECKS = push_bit 1 1 \<and>
   KEYS_UNAFFECTED_HINT = 4 \<and> KEYS_UNAFFECTED_HINT = push_bit 2 1 \<and>
   NO_PK_UNIQUE_CHECKS = 8 \<and> NO_PK_UNIQUE_CHECKS = push_bit 3 1"
  by (simp add: NO_LOCKTREE_def NO_UNIQUE_CHECKS_def KEYS_UNAFFECTED_HINT_def
      NO_PK_UNIQUE_CHECKS_def)


section \<open>GTIDManager: allocation and reset\<close>

text \<open>
  Claim C3. \<^verbatim>\<open>getGTIDForPrimary\<close> returns the current \<^verbatim>\<open>nextLiveGTID\<close>, inserts it into
  \<^verbatim>\<open>liveGTIDs\<close> and advances \<^verbatim>\<open>nextLiveGTID\<close> by one in its \<^verbatim>\<open>GTSeqNo\<close> (in 64-bit
  arithmetic), leaving the other members alone. From \<^verbatim>\<open>GTIDManager(GTID(p,s))\<close> the first
  call returns \<open>(p, s+1)\<close> and the second \<open>(p, s+2)\<close>.
\<close>

theorem getGTIDForPrimary_allocates:
  "fst (getGTIDForPrimary m) = nextLiveGTID m \<and>
   liveGTIDs (snd (getGTIDForPrimary m)) = finsert (nextLiveGTID m) (liveGTIDs m) \<and>
   nextLiveGTID (snd (getGTIDForPrimary m)) =
     GTID (primarySeqNo (nextLiveGTID m)) (GTSeqNo (nextLiveGTID m) + 1) \<and>
   minLiveGTID (snd (getGTIDForPrimary m)) = minLiveGTID m \<and>
   nextUnappliedGTID (snd (getGTIDForPrimary m)) = nextUnappliedGTID m \<and>
   minUnappliedGTID (snd (getGTIDForPrimary m)) = minUnappliedGTID m \<and>
   unappliedGTIDs (snd (getGTIDForPrimary m)) = unappliedGTIDs m \<and>
   fst (getGTIDForPrimary (GTIDManager_ctor (GTID p s))) = GTID p (s + 1) \<and>
   fst (getGTIDForPrimary (snd (getGTIDForPrimary (GTIDManager_ctor (GTID p s))))) =
     GTID p (s + 2)"
  by (simp add: getGTIDForPrimary_def GTIDManager_ctor_def inc_def Let_def)

text \<open>
  Claim C5. When no GTID is live, \<^verbatim>\<open>resetManager(lastGTID)\<close> sets \<^verbatim>\<open>nextLiveGTID\<close> to
  \<^verbatim>\<open>lastGTID\<close> with its \<^verbatim>\<open>primarySeqNo\<close> one higher and its \<^verbatim>\<open>GTSeqNo\<close> zero, sets
  \<^verbatim>\<open>minLiveGTID\<close> to the same GTID and leaves the unapplied side (and the empty
  \<^verbatim>\<open>liveGTIDs\<close>) as they were, in a debug build and in a release build alike; the next
  allocation returns that GTID.
\<close>

theorem resetManager_effect:
  assumes "resetManager_pre m"
  shows "\<exists>m'. resetManager debug lastGTID m = Inr m' \<and>
           nextLiveGTID m' = GTID (primarySeqNo lastGTID + 1) 0 \<and>
           minLiveGTID m' = nextLiveGTID m' \<and>
           liveGTIDs m' = liveGTIDs m \<and>
           minUnappliedGTID m' = minUnappliedGTID m \<and>
           nextUnappliedGTID m' = nextUnappliedGTID m \<and>
           unappliedGTIDs m' = unappliedGTIDs m \<and>
           fst (getGTIDForPrimary m') = GTID (primarySeqNo lastGTID + 1) 0"
  using assms
  by (simp add: resetManager_def resetManager_pre_def inc_primary_def getGTIDForPrimary_def
      Let_def)

text \<open>The reset of scenario S6: after \<^verbatim>\<open>resetManager((5,9))\<close> the next GTID is \<open>(6,0)\<close>.\<close>

theorem resetManager_effect_witness:
  "resetManager_pre (primary_state (GTID 5 10) (GTID 5 10) {||} (GTID 5 10)) \<and>
   (\<exists>m'. resetManager True (GTID 5 9)
            (primary_state (GTID 5 10) (GTID 5 10) {||} (GTID 5 10)) = Inr m' \<and>
         nextLiveGTID m' = GTID 6 0 \<and> minLiveGTID m' = GTID 6 0 \<and>
         minUnappliedGTID m' = GTID 5 10 \<and>
         fst (getGTIDForPrimary m') = GTID 6 0)"
proof -
  have pre: "resetManager_pre (primary_state (GTID 5 10) (GTID 5 10) {||} (GTID 5 10))"
    by (simp add: resetManager_pre_def primary_state_def)
  from resetManager_effect [OF pre, of True "GTID 5 9"] pre show ?thesis
    by (auto simp add: primary_state_def)
qed

section \<open>GTIDManager: the invariant of the live side\<close>

lemma less_inc: "GTSeqNo g \<noteq> - 1 \<Longrightarrow> g < inc g"
proof -
  assume "GTSeqNo g \<noteq> - 1"
  then have "GTSeqNo g < GTSeqNo g + 1"
    by (metis inc_less_eq_triv_imp linorder_less_linear word_le_less_eq)
  then show ?thesis
    by (simp add: GTID_less_iff inc_def)
qed

lemma fcard_pos_iff: "fcard A > 0 \<longleftrightarrow> A \<noteq> {||}"
  by (simp add: zero_less_iff_neq_zero)

lemma fMin_fminus_other:
  assumes "g \<noteq> fMin A" and "A \<noteq> {||}"
  shows "A |-| {|g|} \<noteq> {||}" and "fMin (A |-| {|g|}) = fMin A"
proof -
  have in': "fMin A |\<in>| A |-| {|g|}"
    using assms by simp
  then show "A |-| {|g|} \<noteq> {||}"
    by auto
  show "fMin (A |-| {|g|}) = fMin A"
    by (rule fMin_eqI) (use in' in auto)
qed

lemma strict_imp_invariant: "live_invariant_strict m \<Longrightarrow> live_invariant m"
  unfolding live_invariant_strict_def live_invariant_def
  by (auto simp add: order_less_imp_le)

lemma ctor_strict: "live_invariant_strict (GTIDManager_ctor g)"
  by (simp add: live_invariant_strict_def GTIDManager_ctor_def Let_def)

lemma getGTIDForPrimary_strict:
  assumes "live_invariant_strict m" and "GTSeqNo (nextLiveGTID m) \<noteq> - 1"
  shows "live_invariant_strict (snd (getGTIDForPrimary m))"
proof -
  have lt: "nextLiveGTID m < inc (nextLiveGTID m)"
    using assms(2) by (rule less_inc)
  show ?thesis
  proof (cases "liveGTIDs m = {||}")
    case True
    with assms(1) lt show ?thesis
      by (simp add: live_invariant_strict_def getGTIDForPrimary_def Let_def)
  next
    case False
    with assms(1) have "fMin (liveGTIDs m) < nextLiveGTID m"
      by (simp add: live_invariant_strict_def)
    then have "min (nextLiveGTID m) (fMin (liveGTIDs m)) = fMin (liveGTIDs m)"
      by (simp add: min_absorb2 less_imp_le)
    with assms(1) lt False show ?thesis
      by (auto simp add: live_invariant_strict_def getGTIDForPrimary_def Let_def
          intro: less_trans)
  qed
qed

lemma noteLiveGTIDDone_strict:
  assumes "live_invariant_strict m" and "noteLiveGTIDDone_pre g m"
  shows "\<exists>m'. noteLiveGTIDDone debug g m = Inr m' \<and> live_invariant_strict m' \<and>
              minLiveGTID m \<le> minLiveGTID m' \<and> nextLiveGTID m' = nextLiveGTID m"
proof -
  from assms(2) have ne: "liveGTIDs m \<noteq> {||}"
    by (simp add: noteLiveGTIDDone_pre_def fcard_pos_iff)
  with assms(1) have min: "minLiveGTID m = fMin (liveGTIDs m)"
    and below: "\<And>x. x |\<in>| liveGTIDs m \<Longrightarrow> x < nextLiveGTID m"
    by (simp_all add: live_invariant_strict_def)
  show ?thesis
  proof (cases "g = minLiveGTID m")
    case True
    have "fMin (liveGTIDs m) \<le> fMin (liveGTIDs m |-| {|g|})" if "liveGTIDs m |-| {|g|} \<noteq> {||}"
      using that by (intro fMin_le) (metis fMin_in fminusD1)
    moreover have "fMin (liveGTIDs m) \<le> nextLiveGTID m"
      using below [of "fMin (liveGTIDs m)"] ne by (simp add: order_less_imp_le)
    ultimately show ?thesis
      using True assms(2) min below
      by (simp add: noteLiveGTIDDone_def Let_def GTID_cmp_eq_0 live_invariant_strict_def)
  next
    case False
    then have "g \<noteq> fMin (liveGTIDs m)"
      using min by simp
    from fMin_fminus_other [OF this ne] show ?thesis
      using False assms(2) min below
      by (auto simp add: noteLiveGTIDDone_def Let_def GTID_cmp_eq_0 live_invariant_strict_def)
  qed
qed

lemma noteGTIDAdded_strict:
  assumes "live_invariant_strict m" and "noteGTIDAdded_pre g m"
  shows "\<exists>m'. noteGTIDAdded debug g m = Inr m' \<and> live_invariant_strict m' \<and>
              minLiveGTID m \<le> minLiveGTID m' \<and> nextLiveGTID m \<le> nextLiveGTID m'"
proof -
  from assms(2) have eq: "nextLiveGTID m = minLiveGTID m" and le: "nextLiveGTID m \<le> g"
    by (auto simp add: noteGTIDAdded_pre_def GTID_cmp_order)
  have "liveGTIDs m = {||}"
  proof (rule ccontr)
    assume ne: "liveGTIDs m \<noteq> {||}"
    with assms(1) have "fMin (liveGTIDs m) < nextLiveGTID m" "minLiveGTID m = fMin (liveGTIDs m)"
      by (simp_all add: live_invariant_strict_def)
    with eq show False by simp
  qed
  then show ?thesis
    using assms(2) eq le
    by (auto simp add: noteGTIDAdded_def live_invariant_strict_def)
qed

lemma resetManager_strict:
  assumes "resetManager_pre m"
  shows "\<exists>m'. resetManager debug g m = Inr m' \<and> live_invariant_strict m'"
  using assms
  by (simp add: resetManager_def resetManager_pre_def Let_def live_invariant_strict_def)


lemma getGTIDForPrimary_step:
  assumes "live_invariant_strict m" and "GTSeqNo (nextLiveGTID m) \<noteq> - 1"
  shows "live_invariant_strict (snd (getGTIDForPrimary m)) \<and>
         fst (getGTIDForPrimary m) = nextLiveGTID m \<and>
         nextLiveGTID m < nextLiveGTID (snd (getGTIDForPrimary m)) \<and>
         minLiveGTID (snd (getGTIDForPrimary m)) = minLiveGTID m"
  using getGTIDForPrimary_strict [OF assms] less_inc [OF assms(2)]
  by (simp add: getGTIDForPrimary_def Let_def)

lemma unapplied_ops_live_side:
  "noteApplyingGTID debug g m = Inr m' \<Longrightarrow>
     liveGTIDs m' = liveGTIDs m \<and> minLiveGTID m' = minLiveGTID m \<and>
     nextLiveGTID m' = nextLiveGTID m"
  "noteGTIDApplied debug g m = Inr m' \<Longrightarrow>
     liveGTIDs m' = liveGTIDs m \<and> minLiveGTID m' = minLiveGTID m \<and>
     nextLiveGTID m' = nextLiveGTID m"
  by (auto simp add: noteApplyingGTID_def noteGTIDApplied_def Let_def split: if_splits)

lemma debug_build_decides:
  "noteLiveGTIDDone True g m = Inr m' \<Longrightarrow>
     noteLiveGTIDDone_pre g m \<and> noteLiveGTIDDone debug g m = Inr m'"
  "noteGTIDAdded True g m = Inr m' \<Longrightarrow>
     noteGTIDAdded_pre g m \<and> noteGTIDAdded debug g m = Inr m'"
  "noteApplyingGTID True g m = Inr m' \<Longrightarrow> noteApplyingGTID debug g m = Inr m'"
  "noteGTIDApplied True g m = Inr m' \<Longrightarrow> noteGTIDApplied debug g m = Inr m'"
  by (auto simp add: noteLiveGTIDDone_def noteGTIDAdded_def noteApplyingGTID_def
      noteGTIDApplied_def split: if_splits)

lemma no_result_Inr: "no_result x = Inr (r, m') \<longleftrightarrow> r = None \<and> x = Inr m'"
  by (cases x) (auto simp add: no_result_def)

lemma call_step:
  assumes "live_invariant_strict m"
    and "call True c m = Inr (r, m')"
    and "\<not> is_reset c"
    and "\<And>a. r = Some a \<Longrightarrow> GTSeqNo a \<noteq> - 1"
  shows "call debug c m = Inr (r, m') \<and> live_invariant_strict m' \<and>
         minLiveGTID m \<le> minLiveGTID m' \<and> nextLiveGTID m \<le> nextLiveGTID m' \<and>
         (\<forall>a. r = Some a \<longrightarrow> a = nextLiveGTID m \<and> a < nextLiveGTID m')"
proof (cases c)
  case GetGTIDForPrimary
  with assms(2) have r: "r = Some (nextLiveGTID m)" and m': "m' = snd (getGTIDForPrimary m)"
    by (auto simp add: getGTIDForPrimary_def Let_def)
  with assms(4) have "GTSeqNo (nextLiveGTID m) \<noteq> - 1"
    by simp
  from getGTIDForPrimary_step [OF assms(1) this] show ?thesis
    using GetGTIDForPrimary r m' by (simp add: split_beta order_less_imp_le)
next
  case (NoteLiveGTIDDone g)
  with assms(2) have "noteLiveGTIDDone True g m = Inr m'" and r: "r = None"
    by (simp_all add: no_result_Inr)
  from debug_build_decides(1) [OF this(1), of debug]
    noteLiveGTIDDone_strict [OF assms(1), of g debug]
  show ?thesis
    using NoteLiveGTIDDone r by (auto simp add: no_result_Inr)
next
  case (NoteGTIDAdded g)
  with assms(2) have "noteGTIDAdded True g m = Inr m'" and r: "r = None"
    by (simp_all add: no_result_Inr)
  from debug_build_decides(2) [OF this(1), of debug]
    noteGTIDAdded_strict [OF assms(1), of g debug]
  show ?thesis
    using NoteGTIDAdded r by (auto simp add: no_result_Inr)
next
  case (NoteApplyingGTID g)
  with assms(2) have h: "noteApplyingGTID True g m = Inr m'" and r: "r = None"
    by (simp_all add: no_result_Inr)
  from debug_build_decides(3) [OF h, of debug] unapplied_ops_live_side(1) [OF h] assms(1)
  show ?thesis
    using NoteApplyingGTID r by (simp add: no_result_Inr live_invariant_strict_def)
next
  case (NoteGTIDApplied g)
  with assms(2) have h: "noteGTIDApplied True g m = Inr m'" and r: "r = None"
    by (simp_all add: no_result_Inr)
  from debug_build_decides(4) [OF h, of debug] unapplied_ops_live_side(2) [OF h] assms(1)
  show ?thesis
    using NoteGTIDApplied r by (simp add: no_result_Inr live_invariant_strict_def)
next
  case (ResetManager g)
  with assms(3) show ?thesis by simp
qed


lemma call_strict:
  assumes "live_invariant_strict m"
    and "call True c m = Inr (r, m')"
    and "\<And>a. r = Some a \<Longrightarrow> GTSeqNo a \<noteq> - 1"
  shows "call debug c m = Inr (r, m') \<and> live_invariant_strict m'"
proof (cases c)
  case (ResetManager g)
  with assms(2) have h: "resetManager True g m = Inr m'" and r: "r = None"
    by (simp_all add: no_result_Inr)
  then have pre: "resetManager_pre m"
    by (simp add: resetManager_def split: if_splits)
  from h pre have "resetManager debug g m = Inr m'"
    by (simp add: resetManager_def)
  with resetManager_strict [OF pre, of debug g] show ?thesis
    using ResetManager r by (simp add: no_result_Inr)
qed (use call_step [OF assms(1,2) _ assms(3), where debug = debug] in simp_all)

lemma run_Cons_Inr:
  "run debug (c # cs) m = Inr tr \<longleftrightarrow>
     (\<exists>r m' tr'. call debug c m = Inr (r, m') \<and> run debug cs m' = Inr tr' \<and>
                 tr = (r, m') # tr')"
  by (auto split: sum.splits prod.splits)

lemma allocations_Cons:
  "set (allocations ((r, m) # tr)) = (case r of None \<Rightarrow> {} | Some a \<Rightarrow> {a}) \<union> set (allocations tr)"
  by (cases r) simp_all

lemma run_strict:
  assumes "live_invariant_strict m"
    and "run True ops m = Inr tr"
    and "\<forall>a \<in> set (allocations tr). GTSeqNo a \<noteq> - 1"
  shows "run debug ops m = Inr tr \<and> (\<forall>s \<in> set tr. live_invariant_strict (snd s))"
  using assms
proof (induction ops arbitrary: m tr)
  case Nil
  then show ?case by simp
next
  case (Cons c cs)
  from Cons.prems(2) obtain r m' tr' where
    c: "call True c m = Inr (r, m')" and cs: "run True cs m' = Inr tr'"
    and tr: "tr = (r, m') # tr'"
    unfolding run_Cons_Inr by blast
  from Cons.prems(3) have r: "\<And>a. r = Some a \<Longrightarrow> GTSeqNo a \<noteq> - 1"
    and rest: "\<forall>a \<in> set (allocations tr'). GTSeqNo a \<noteq> - 1"
    unfolding tr allocations_Cons by auto
  from call_strict [OF Cons.prems(1) c r, where debug = debug]
  have c': "call debug c m = Inr (r, m')" and m': "live_invariant_strict m'"
    by simp_all
  from Cons.IH [OF m' cs rest] c' m' show ?case
    unfolding run_Cons_Inr tr by simp
qed

text \<open>Calls on the states of the scenarios, and the run of scenario S6.\<close>

lemma ctor_primary_state:
  "GTIDManager_ctor g = primary_state (inc g) (inc g) {||} GTID_default"
  by (simp add: GTIDManager_ctor_def primary_state_def Let_def)

lemma call_get_primary_state:
  "call debug GetGTIDForPrimary (primary_state n mn live mu) =
     Inr (Some n, primary_state (inc n) mn (finsert n live) mu)"
  by (simp add: getGTIDForPrimary_def primary_state_def Let_def)

lemma call_done_min_primary_state:
  "live \<noteq> {||} \<Longrightarrow>
   call debug (NoteLiveGTIDDone mn) (primary_state n mn live mu) =
     Inr (None,
       if live |-| {|mn|} = {||} then primary_state n n {||} n
       else primary_state n (fMin (live |-| {|mn|})) (live |-| {|mn|}) (fMin (live |-| {|mn|})))"
  by (simp add: noteLiveGTIDDone_def noteLiveGTIDDone_pre_def primary_state_def Let_def
      no_result_def GTID_cmp_refl fcard_pos_iff)

lemma call_reset_primary_state:
  "call debug (ResetManager g) (primary_state n mn {||} mu) =
     Inr (None, primary_state (inc_primary g) (inc_primary g) {||} mu)"
  by (simp add: resetManager_def resetManager_pre_def primary_state_def Let_def no_result_def)

lemma S6_sets:
  "{|GTID 5 9, GTID 5 8|} |-| {|GTID 5 8|} = {|GTID 5 9|}"
  "{|GTID 5 9|} |-| {|GTID 5 9|} = {||}"
  by auto

lemma S6_run: "run True scenario_S6_calls (GTIDManager_ctor (GTID 5 7)) = Inr scenario_S6_trace"
  by (simp add: scenario_S6_calls_def scenario_S6_trace_def ctor_primary_state
      call_get_primary_state call_done_min_primary_state call_reset_primary_state
      S6_sets inc_def inc_primary_def GTID_default_def del: call.simps)


text \<open>
  Claim C2, as amended. The invariant that every operation preserves is: every live GTID
  is strictly below \<^verbatim>\<open>nextLiveGTID\<close>, and \<^verbatim>\<open>minLiveGTID\<close> is the least live GTID when
  there is one and \<^verbatim>\<open>nextLiveGTID\<close> otherwise. It implies the invariant of the
  specification (\<^verbatim>\<open>minLiveGTID\<close> is at most every live GTID, every live GTID is at most
  \<^verbatim>\<open>nextLiveGTID\<close>, and the two are equal when no GTID is live); the constructor
  establishes it; \<^verbatim>\<open>getGTIDForPrimary\<close> preserves it unless the \<^verbatim>\<open>GTSeqNo\<close> of
  \<^verbatim>\<open>nextLiveGTID\<close> is the largest one (\<open>2^64 - 1\<close>, written \<open>- 1\<close>; the increment
  then wraps around); \<^verbatim>\<open>noteLiveGTIDDone\<close>, \<^verbatim>\<open>noteGTIDAdded\<close> and \<^verbatim>\<open>resetManager\<close>
  preserve it under their preconditions, in a debug build and in a release build. So the
  invariant of the specification holds in every state that a sequence of calls reaches
  from the constructor, when every precondition holds (the debug build returns a trace)
  and no allocated GTID has the largest \<^verbatim>\<open>GTSeqNo\<close>.
\<close>

theorem live_invariant_preserved:
  "(live_invariant_strict m \<longrightarrow> live_invariant m) \<and>
   live_invariant_strict (GTIDManager_ctor g0) \<and>
   (live_invariant_strict m \<and> GTSeqNo (nextLiveGTID m) \<noteq> - 1 \<longrightarrow>
      live_invariant_strict (snd (getGTIDForPrimary m))) \<and>
   (live_invariant_strict m \<and> noteLiveGTIDDone_pre g m \<longrightarrow>
      (\<exists>m'. noteLiveGTIDDone debug g m = Inr m' \<and> live_invariant_strict m')) \<and>
   (live_invariant_strict m \<and> noteGTIDAdded_pre g m \<longrightarrow>
      (\<exists>m'. noteGTIDAdded debug g m = Inr m' \<and> live_invariant_strict m')) \<and>
   (resetManager_pre m \<longrightarrow>
      (\<exists>m'. resetManager debug g m = Inr m' \<and> live_invariant_strict m')) \<and>
   (run True ops (GTIDManager_ctor g0) = Inr tr \<and>
    (\<forall>a \<in> set (allocations tr). GTSeqNo a \<noteq> - 1) \<longrightarrow>
      run debug ops (GTIDManager_ctor g0) = Inr tr \<and>
      live_invariant (GTIDManager_ctor g0) \<and>
      (\<forall>s \<in> set tr. live_invariant (snd s)))"
proof (intro conjI impI)
  show "live_invariant_strict (GTIDManager_ctor g0)"
    by (rule ctor_strict)
  then show "live_invariant (GTIDManager_ctor g0)"
    by (rule strict_imp_invariant)
next
  assume "live_invariant_strict m"
  then show "live_invariant m"
    by (rule strict_imp_invariant)
next
  assume "live_invariant_strict m \<and> GTSeqNo (nextLiveGTID m) \<noteq> - 1"
  then show "live_invariant_strict (snd (getGTIDForPrimary m))"
    by (simp add: getGTIDForPrimary_strict)
next
  assume "live_invariant_strict m \<and> noteLiveGTIDDone_pre g m"
  then show "\<exists>m'. noteLiveGTIDDone debug g m = Inr m' \<and> live_invariant_strict m'"
    using noteLiveGTIDDone_strict [of m g debug] by blast
next
  assume "live_invariant_strict m \<and> noteGTIDAdded_pre g m"
  then show "\<exists>m'. noteGTIDAdded debug g m = Inr m' \<and> live_invariant_strict m'"
    using noteGTIDAdded_strict [of m g debug] by blast
next
  assume "resetManager_pre m"
  then show "\<exists>m'. resetManager debug g m = Inr m' \<and> live_invariant_strict m'"
    by (rule resetManager_strict)
next
  assume a: "run True ops (GTIDManager_ctor g0) = Inr tr \<and>
    (\<forall>a \<in> set (allocations tr). GTSeqNo a \<noteq> - 1)"
  then have r: "run True ops (GTIDManager_ctor g0) = Inr tr"
    and n: "\<forall>a \<in> set (allocations tr). GTSeqNo a \<noteq> - 1"
    by simp_all
  from run_strict [OF ctor_strict r n, where debug = debug]
  show "run debug ops (GTIDManager_ctor g0) = Inr tr"
    and "\<forall>s \<in> set tr. live_invariant (snd s)"
    by (simp_all add: strict_imp_invariant)
qed

text \<open>
  The state of scenario S6 after its first allocation, for \<^verbatim>\<open>getGTIDForPrimary\<close> and
  \<^verbatim>\<open>noteLiveGTIDDone\<close>; the state after the constructor, for \<^verbatim>\<open>noteGTIDAdded\<close> and
  \<^verbatim>\<open>resetManager\<close>; and the run of the scenario.
\<close>

theorem live_invariant_preserved_witness:
  "live_invariant_strict (primary_state (GTID 5 9) (GTID 5 8) {|GTID 5 8|} (GTID 0 0)) \<and>
   live_invariant (primary_state (GTID 5 9) (GTID 5 8) {|GTID 5 8|} (GTID 0 0)) \<and>
   GTSeqNo (nextLiveGTID (primary_state (GTID 5 9) (GTID 5 8) {|GTID 5 8|} (GTID 0 0))) \<noteq> - 1 \<and>
   live_invariant_strict
     (snd (getGTIDForPrimary (primary_state (GTID 5 9) (GTID 5 8) {|GTID 5 8|} (GTID 0 0)))) \<and>
   noteLiveGTIDDone_pre (GTID 5 8)
     (primary_state (GTID 5 9) (GTID 5 8) {|GTID 5 8|} (GTID 0 0)) \<and>
   (\<exists>m'. noteLiveGTIDDone True (GTID 5 8)
            (primary_state (GTID 5 9) (GTID 5 8) {|GTID 5 8|} (GTID 0 0)) = Inr m' \<and>
         live_invariant_strict m') \<and>
   live_invariant_strict (GTIDManager_ctor (GTID 5 7)) \<and>
   noteGTIDAdded_pre (GTID 5 20) (GTIDManager_ctor (GTID 5 7)) \<and>
   (\<exists>m'. noteGTIDAdded True (GTID 5 20) (GTIDManager_ctor (GTID 5 7)) = Inr m' \<and>
         live_invariant_strict m') \<and>
   resetManager_pre (GTIDManager_ctor (GTID 5 7)) \<and>
   (\<exists>m'. resetManager True (GTID 5 9) (GTIDManager_ctor (GTID 5 7)) = Inr m' \<and>
         live_invariant_strict m') \<and>
   run True scenario_S6_calls (GTIDManager_ctor (GTID 5 7)) = Inr scenario_S6_trace \<and>
   allocations scenario_S6_trace = [GTID 5 8, GTID 5 9, GTID 6 0] \<and>
   run False scenario_S6_calls (GTIDManager_ctor (GTID 5 7)) = Inr scenario_S6_trace \<and>
   live_invariant (GTIDManager_ctor (GTID 5 7)) \<and>
   list_all (\<lambda>s. live_invariant (snd s)) scenario_S6_trace"
proof -
  let ?m = "primary_state (GTID 5 9) (GTID 5 8) {|GTID 5 8|} (GTID 0 0)"
  let ?c = "GTIDManager_ctor (GTID 5 7)"
  have s: "live_invariant_strict ?m"
    by (simp add: live_invariant_strict_def primary_state_def less_GTID_def GTID_cmp_def)
  have n: "GTSeqNo (nextLiveGTID ?m) \<noteq> - 1"
    by (simp add: primary_state_def)
  have d: "noteLiveGTIDDone_pre (GTID 5 8) ?m"
    by (simp add: noteLiveGTIDDone_pre_def primary_state_def GTID_cmp_def fcard_pos_iff)
  have g: "noteGTIDAdded_pre (GTID 5 20) ?c"
    by (simp add: noteGTIDAdded_pre_def GTIDManager_ctor_def inc_def Let_def GTID_cmp_def)
  have p: "resetManager_pre ?c"
    by (simp add: resetManager_pre_def GTIDManager_ctor_def Let_def)
  have a: "allocations scenario_S6_trace = [GTID 5 8, GTID 5 9, GTID 6 0]"
    by (simp add: scenario_S6_trace_def)
  have b: "\<forall>a \<in> set (allocations scenario_S6_trace). GTSeqNo a \<noteq> - 1"
    unfolding a by simp
  note inst = live_invariant_preserved [where ?g0.0 = "GTID 5 7" and ops = scenario_S6_calls
      and tr = scenario_S6_trace]
  from inst [where m = ?m and g = "GTID 5 8" and debug = True]
    inst [where m = ?c and g = "GTID 5 20" and debug = True]
    inst [where m = ?c and g = "GTID 5 9" and debug = True]
    inst [where m = ?c and g = "GTID 5 9" and debug = False]
    s n d g p a b S6_run
  show ?thesis
    by (simp add: list_all_iff)
qed

text \<open>
  The claim as it is worded fails in two ways. Across the wrap-around of \<^verbatim>\<open>GTSeqNo\<close>:
  from \<^verbatim>\<open>GTIDManager(GTID(0, 2^64-2))\<close> the first allocation leaves \<open>(0, 2^64-1)\<close> live
  above \<^verbatim>\<open>nextLiveGTID = (0,0)\<close>. And the three conditions alone are not kept by
  \<^verbatim>\<open>noteLiveGTIDDone\<close>: they hold in the state with \<^verbatim>\<open>minLiveGTID = (5,8)\<close>, the one live
  GTID \<open>(5,9)\<close> and \<^verbatim>\<open>nextLiveGTID = (5,10)\<close>, where completing \<open>(5,9)\<close> meets the
  precondition and leaves no GTID live with \<^verbatim>\<open>minLiveGTID \<noteq> nextLiveGTID\<close>.
\<close>

theorem live_invariant_counterexample:
  "(- 2 :: 64 word) = 0xfffffffffffffffe \<and>
   live_invariant (GTIDManager_ctor (GTID 0 (- 2))) \<and>
   \<not> live_invariant (snd (getGTIDForPrimary (GTIDManager_ctor (GTID 0 (- 2))))) \<and>
   live_invariant (primary_state (GTID 5 10) (GTID 5 8) {|GTID 5 9|} (GTID 0 0)) \<and>
   noteLiveGTIDDone_pre (GTID 5 9) (primary_state (GTID 5 10) (GTID 5 8) {|GTID 5 9|} (GTID 0 0)) \<and>
   noteLiveGTIDDone True (GTID 5 9) (primary_state (GTID 5 10) (GTID 5 8) {|GTID 5 9|} (GTID 0 0))
     = Inr (primary_state (GTID 5 10) (GTID 5 8) {||} (GTID 0 0)) \<and>
   \<not> live_invariant (primary_state (GTID 5 10) (GTID 5 8) {||} (GTID 0 0))"
  by (simp add: live_invariant_def GTIDManager_ctor_def getGTIDForPrimary_def
      noteLiveGTIDDone_def noteLiveGTIDDone_pre_def primary_state_def inc_def Let_def
      GTID_default_def less_eq_GTID_def GTID_cmp_def fcard_pos_iff)

section \<open>GTIDManager: the minimum of the unapplied side on a primary\<close>

lemma noteLiveGTIDDone_mirror:
  assumes "noteLiveGTIDDone debug g m = Inr m'"
    and "g = minLiveGTID m \<or> minUnappliedGTID m = minLiveGTID m"
  shows "minUnappliedGTID m' = minLiveGTID m'"
  using assms
  by (auto simp add: noteLiveGTIDDone_def Let_def GTID_cmp_eq_0 split: if_splits)

lemma call_mirror:
  assumes "call debug c m = Inr (r, m')" and "is_primary_op c"
    and "minUnappliedGTID m = minLiveGTID m"
  shows "minUnappliedGTID m' = minLiveGTID m'"
proof (cases c)
  case GetGTIDForPrimary
  with assms(1,3) show ?thesis
    by (auto simp add: getGTIDForPrimary_def Let_def)
next
  case (NoteLiveGTIDDone g)
  with assms(1) have "noteLiveGTIDDone debug g m = Inr m'"
    by (simp add: no_result_Inr)
  then show ?thesis
    using assms(3) by (intro noteLiveGTIDDone_mirror [of debug g m m']) simp_all
qed (use assms(2) in simp_all)

lemma run_mirror:
  assumes "run debug ops m = Inr tr" and "\<forall>c \<in> set ops. is_primary_op c"
    and "minUnappliedGTID m = minLiveGTID m"
  shows "\<forall>s \<in> set tr. minUnappliedGTID (snd s) = minLiveGTID (snd s)"
  using assms
proof (induction ops arbitrary: m tr)
  case Nil
  then show ?case by simp
next
  case (Cons c cs)
  from Cons.prems(1) obtain r m' tr' where
    c: "call debug c m = Inr (r, m')" and cs: "run debug cs m' = Inr tr'"
    and tr: "tr = (r, m') # tr'"
    unfolding run_Cons_Inr by blast
  from Cons.prems(2) have p: "is_primary_op c" and ps: "\<forall>c \<in> set cs. is_primary_op c"
    by simp_all
  from call_mirror [OF c p Cons.prems(3)] have m': "minUnappliedGTID m' = minLiveGTID m'" .
  from Cons.IH [OF cs ps m'] m' show ?case
    by (simp add: tr)
qed

text \<open>
  Claim C4, as amended. \<^verbatim>\<open>noteLiveGTIDDone(g)\<close> leaves \<^verbatim>\<open>minUnappliedGTID\<close> equal to
  \<^verbatim>\<open>minLiveGTID\<close> whenever \<open>g\<close> is the current \<^verbatim>\<open>minLiveGTID\<close> or the two were equal
  before; \<^verbatim>\<open>getGTIDForPrimary\<close> keeps them equal; so once they are equal they stay equal
  through every sequence of these two operations. The constructor does not make them
  equal.
\<close>

theorem minUnapplied_mirrors_minLive:
  "(noteLiveGTIDDone debug g m = Inr m' \<and>
      (g = minLiveGTID m \<or> minUnappliedGTID m = minLiveGTID m) \<longrightarrow>
        minUnappliedGTID m' = minLiveGTID m') \<and>
   (minUnappliedGTID m = minLiveGTID m \<longrightarrow>
      minUnappliedGTID (snd (getGTIDForPrimary m)) = minLiveGTID (snd (getGTIDForPrimary m))) \<and>
   (run debug ops m = Inr tr \<and> (\<forall>c \<in> set ops. is_primary_op c) \<and>
      minUnappliedGTID m = minLiveGTID m \<longrightarrow>
        (\<forall>s \<in> set tr. minUnappliedGTID (snd s) = minLiveGTID (snd s)))"
  using noteLiveGTIDDone_mirror [of debug g m m'] run_mirror [of debug ops m tr]
  by (auto simp add: getGTIDForPrimary_def Let_def)

text \<open>
  The state of scenario S6 after \<open>(5,8)\<close> is completed, where \<open>(5,9)\<close> is the one live
  GTID and both minima are \<open>(5,9)\<close>.
\<close>

theorem minUnapplied_mirrors_minLive_witness:
  "noteLiveGTIDDone True (GTID 5 9) (primary_state (GTID 5 10) (GTID 5 9) {|GTID 5 9|} (GTID 5 9))
     = Inr (primary_state (GTID 5 10) (GTID 5 10) {||} (GTID 5 10)) \<and>
   minUnappliedGTID (primary_state (GTID 5 10) (GTID 5 10) {||} (GTID 5 10)) =
     minLiveGTID (primary_state (GTID 5 10) (GTID 5 10) {||} (GTID 5 10)) \<and>
   minUnappliedGTID (primary_state (GTID 5 10) (GTID 5 9) {|GTID 5 9|} (GTID 5 9)) =
     minLiveGTID (primary_state (GTID 5 10) (GTID 5 9) {|GTID 5 9|} (GTID 5 9)) \<and>
   minUnappliedGTID
     (snd (getGTIDForPrimary (primary_state (GTID 5 10) (GTID 5 9) {|GTID 5 9|} (GTID 5 9)))) =
   minLiveGTID
     (snd (getGTIDForPrimary (primary_state (GTID 5 10) (GTID 5 9) {|GTID 5 9|} (GTID 5 9)))) \<and>
   run True [GetGTIDForPrimary, NoteLiveGTIDDone (GTID 5 9)]
     (primary_state (GTID 5 10) (GTID 5 9) {|GTID 5 9|} (GTID 5 9)) =
     Inr [(Some (GTID 5 10),
            primary_state (GTID 5 11) (GTID 5 9) {|GTID 5 10, GTID 5 9|} (GTID 5 9)),
          (None, primary_state (GTID 5 11) (GTID 5 10) {|GTID 5 10|} (GTID 5 10))] \<and>
   list_all is_primary_op [GetGTIDForPrimary, NoteLiveGTIDDone (GTID 5 9)] \<and>
   list_all (\<lambda>s. minUnappliedGTID (snd s) = minLiveGTID (snd s))
     [(Some (GTID 5 10),
        primary_state (GTID 5 11) (GTID 5 9) {|GTID 5 10, GTID 5 9|} (GTID 5 9)),
      (None, primary_state (GTID 5 11) (GTID 5 10) {|GTID 5 10|} (GTID 5 10))]"
proof -
  let ?m = "primary_state (GTID 5 10) (GTID 5 9) {|GTID 5 9|} (GTID 5 9)"
  let ?ops = "[GetGTIDForPrimary, NoteLiveGTIDDone (GTID 5 9)]"
  let ?tr = "[(Some (GTID 5 10),
               primary_state (GTID 5 11) (GTID 5 9) {|GTID 5 10, GTID 5 9|} (GTID 5 9)),
              (None, primary_state (GTID 5 11) (GTID 5 10) {|GTID 5 10|} (GTID 5 10))]"
  have sets: "{|GTID 5 10, GTID 5 9|} |-| {|GTID 5 9|} = {|GTID 5 10|}"
    by auto
  have d: "noteLiveGTIDDone True (GTID 5 9) ?m =
      Inr (primary_state (GTID 5 10) (GTID 5 10) {||} (GTID 5 10))"
    using call_done_min_primary_state [of "{|GTID 5 9|}" True "GTID 5 9" "GTID 5 10" "GTID 5 9"]
    by (simp add: no_result_def split: sum.splits)
  have e: "minUnappliedGTID ?m = minLiveGTID ?m"
    by (simp add: primary_state_def)
  have r: "run True ?ops ?m = Inr ?tr"
    by (simp add: call_get_primary_state call_done_min_primary_state sets inc_def
        del: call.simps)
  have p: "\<forall>c \<in> set ?ops. is_primary_op c"
    by simp
  from minUnapplied_mirrors_minLive [of True "GTID 5 9" ?m _ ?ops ?tr] d e r p
  show ?thesis
    by (simp add: list_all_iff)
qed

text \<open>
  The claim as it is worded fails at the constructor, which leaves \<^verbatim>\<open>_minUnappliedGTID\<close>
  as \<^verbatim>\<open>GTID()\<close> made it: after \<^verbatim>\<open>GTIDManager(GTID(5,7))\<close>, and after an allocation,
  \<^verbatim>\<open>getMins\<close> gives \<open>(5,8)\<close> and \<open>(0,0)\<close>.
\<close>

theorem minUnapplied_counterexample:
  "minLiveGTID (GTIDManager_ctor (GTID 5 7)) = GTID 5 8 \<and>
   minUnappliedGTID (GTIDManager_ctor (GTID 5 7)) = GTID 0 0 \<and>
   minUnappliedGTID (GTIDManager_ctor (GTID 5 7)) \<noteq> minLiveGTID (GTIDManager_ctor (GTID 5 7)) \<and>
   getMins (snd (getGTIDForPrimary (GTIDManager_ctor (GTID 5 7)))) = (GTID 5 8, GTID 0 0)"
  by (simp add: GTIDManager_ctor_def getGTIDForPrimary_def getMins_def inc_def Let_def
      GTID_default_def)

section \<open>GTIDManager: the order of allocations\<close>

lemma noteLiveGTIDDone_strict_any:
  assumes "live_invariant_strict m" and "noteLiveGTIDDone debug g m = Inr m'"
  shows "live_invariant_strict m' \<and> minLiveGTID m \<le> minLiveGTID m' \<and>
         nextLiveGTID m' = nextLiveGTID m"
proof (cases "liveGTIDs m = {||}")
  case True
  with assms show ?thesis
    by (auto simp add: noteLiveGTIDDone_def Let_def live_invariant_strict_def
        split: if_splits)
next
  case False
  show ?thesis
  proof (cases "GTID_cmp g (minLiveGTID m) \<ge> 0")
    case True
    with False have "noteLiveGTIDDone_pre g m"
      by (simp add: noteLiveGTIDDone_pre_def fcard_pos_iff)
    from noteLiveGTIDDone_strict [OF assms(1) this, of debug] assms(2) show ?thesis
      by auto
  next
    case below: False
    then have lt: "g < minLiveGTID m"
      by (simp add: GTID_cmp_order not_le)
    from assms(1) False have min: "minLiveGTID m = fMin (liveGTIDs m)"
      by (simp add: live_invariant_strict_def)
    have "g |\<notin>| liveGTIDs m"
    proof
      assume "g |\<in>| liveGTIDs m"
      then have "fMin (liveGTIDs m) \<le> g" by (rule fMin_le)
      with lt min show False by simp
    qed
    then have same: "liveGTIDs m |-| {|g|} = liveGTIDs m"
      by auto
    from lt have "g \<noteq> minLiveGTID m" by auto
    with assms same show ?thesis
      by (auto simp add: noteLiveGTIDDone_def Let_def GTID_cmp_eq_0 live_invariant_strict_def
          split: if_splits)
  qed
qed

lemma call_next_step:
  assumes "call debug c m = Inr (r, m')"
    and "\<not> is_reset c"
    and "\<And>g. c = NoteGTIDAdded g \<Longrightarrow> nextLiveGTID m \<le> g"
    and "\<And>a. r = Some a \<Longrightarrow> GTSeqNo a \<noteq> - 1"
  shows "nextLiveGTID m \<le> nextLiveGTID m' \<and>
         (\<forall>a. r = Some a \<longrightarrow> a = nextLiveGTID m \<and> a < nextLiveGTID m')"
proof (cases c)
  case GetGTIDForPrimary
  with assms(1) have r: "r = Some (nextLiveGTID m)" and m': "m' = snd (getGTIDForPrimary m)"
    by (auto simp add: getGTIDForPrimary_def Let_def)
  with assms(4) have "GTSeqNo (nextLiveGTID m) \<noteq> - 1"
    by simp
  from less_inc [OF this] show ?thesis
    using r m' by (simp add: getGTIDForPrimary_def Let_def order_less_imp_le)
next
  case (NoteLiveGTIDDone g)
  with assms(1) show ?thesis
    by (auto simp add: no_result_Inr noteLiveGTIDDone_def Let_def split: if_splits)
next
  case (NoteGTIDAdded g)
  with assms(1) assms(3) [of g] show ?thesis
    by (auto simp add: no_result_Inr noteGTIDAdded_def split: if_splits)
next
  case (NoteApplyingGTID g)
  with assms(1) show ?thesis
    by (auto simp add: no_result_Inr dest: unapplied_ops_live_side(1))
next
  case (NoteGTIDApplied g)
  with assms(1) show ?thesis
    by (auto simp add: no_result_Inr dest: unapplied_ops_live_side(2))
next
  case (ResetManager g)
  with assms(2) show ?thesis by simp
qed

lemma call_min_step:
  assumes "live_invariant_strict m"
    and "call debug c m = Inr (r, m')"
    and "\<not> is_reset c"
    and "\<And>g. c = NoteGTIDAdded g \<Longrightarrow> noteGTIDAdded_pre g m"
    and "\<And>a. r = Some a \<Longrightarrow> GTSeqNo a \<noteq> - 1"
  shows "live_invariant_strict m' \<and> minLiveGTID m \<le> minLiveGTID m'"
proof (cases c)
  case GetGTIDForPrimary
  with assms(2) have r: "r = Some (nextLiveGTID m)" and m': "m' = snd (getGTIDForPrimary m)"
    by (auto simp add: getGTIDForPrimary_def Let_def)
  with assms(5) have "GTSeqNo (nextLiveGTID m) \<noteq> - 1"
    by simp
  from getGTIDForPrimary_step [OF assms(1) this] show ?thesis
    using m' by simp
next
  case (NoteLiveGTIDDone g)
  with assms(2) have "noteLiveGTIDDone debug g m = Inr m'"
    by (simp add: no_result_Inr)
  from noteLiveGTIDDone_strict_any [OF assms(1) this] show ?thesis
    by simp
next
  case (NoteGTIDAdded g)
  with assms(2) have h: "noteGTIDAdded debug g m = Inr m'"
    by (simp add: no_result_Inr)
  from noteGTIDAdded_strict [OF assms(1) assms(4) [OF NoteGTIDAdded], of debug] h
  show ?thesis by auto
next
  case (NoteApplyingGTID g)
  with assms(2) have h: "noteApplyingGTID debug g m = Inr m'"
    by (simp add: no_result_Inr)
  from unapplied_ops_live_side(1) [OF h] assms(1) show ?thesis
    by (simp add: live_invariant_strict_def)
next
  case (NoteGTIDApplied g)
  with assms(2) have h: "noteGTIDApplied debug g m = Inr m'"
    by (simp add: no_result_Inr)
  from unapplied_ops_live_side(2) [OF h] assms(1) show ?thesis
    by (simp add: live_invariant_strict_def)
next
  case (ResetManager g)
  with assms(3) show ?thesis by simp
qed

lemma run_allocations_increasing:
  assumes "run debug ops m = Inr tr"
    and "\<forall>c \<in> set ops. \<not> is_reset c"
    and "\<forall>i g. i < length ops \<and> ops ! i = NoteGTIDAdded g \<longrightarrow>
           nextLiveGTID ((m # map snd tr) ! i) \<le> g"
    and "\<forall>a \<in> set (allocations tr). GTSeqNo a \<noteq> - 1"
  shows "(\<forall>a \<in> set (allocations tr). nextLiveGTID m \<le> a) \<and>
         sorted_wrt (<) (allocations tr)"
  using assms
proof (induction ops arbitrary: m tr)
  case Nil
  then show ?case by simp
next
  case (Cons c cs)
  from Cons.prems(1) obtain r m' tr' where
    c: "call debug c m = Inr (r, m')" and cs: "run debug cs m' = Inr tr'"
    and tr: "tr = (r, m') # tr'"
    unfolding run_Cons_Inr by blast
  from Cons.prems(2) have nr: "\<not> is_reset c" and nrs: "\<forall>c \<in> set cs. \<not> is_reset c"
    by simp_all
  from Cons.prems(3) [rule_format, of 0] have here: "\<And>g. c = NoteGTIDAdded g \<Longrightarrow> nextLiveGTID m \<le> g"
    by simp
  have later_added: "\<forall>i g. i < length cs \<and> cs ! i = NoteGTIDAdded g \<longrightarrow>
           nextLiveGTID ((m' # map snd tr') ! i) \<le> g"
  proof (intro allI impI)
    fix i g assume "i < length cs \<and> cs ! i = NoteGTIDAdded g"
    with Cons.prems(3) [rule_format, of "Suc i" g] show "nextLiveGTID ((m' # map snd tr') ! i) \<le> g"
      by (simp add: tr)
  qed
  from Cons.prems(4) have r: "\<And>a. r = Some a \<Longrightarrow> GTSeqNo a \<noteq> - 1"
    and rest: "\<forall>a \<in> set (allocations tr'). GTSeqNo a \<noteq> - 1"
    unfolding tr allocations_Cons by auto
  from call_next_step [OF c nr here r]
  have nxt: "nextLiveGTID m \<le> nextLiveGTID m'"
    and ret: "\<And>a. r = Some a \<Longrightarrow> a = nextLiveGTID m \<and> a < nextLiveGTID m'"
    by simp_all
  from Cons.IH [OF cs nrs later_added rest]
  have later: "\<And>a. a \<in> set (allocations tr') \<Longrightarrow> nextLiveGTID m' \<le> a"
    and inc: "sorted_wrt (<) (allocations tr')"
    by simp_all
  have 1: "\<forall>a \<in> set (allocations tr). nextLiveGTID m \<le> a"
    unfolding tr allocations_Cons using ret later nxt
    by (auto split: option.splits intro: order_trans)
  have 2: "sorted_wrt (<) (allocations tr)"
  proof (cases r)
    case None
    with inc show ?thesis by (simp add: tr)
  next
    case (Some a)
    with ret later have "\<And>b. b \<in> set (allocations tr') \<Longrightarrow> a < b"
      by (metis less_le_trans)
    with inc Some show ?thesis by (simp add: tr)
  qed
  from 1 2 show ?case by simp
qed

lemma run_minLive_monotone:
  assumes "live_invariant_strict m"
    and "run debug ops m = Inr tr"
    and "\<forall>c \<in> set ops. \<not> is_reset c"
    and "\<forall>i g. i < length ops \<and> ops ! i = NoteGTIDAdded g \<longrightarrow>
           noteGTIDAdded_pre g ((m # map snd tr) ! i)"
    and "\<forall>a \<in> set (allocations tr). GTSeqNo a \<noteq> - 1"
  shows "sorted (map minLiveGTID (m # map snd tr)) \<and>
         (\<forall>s \<in> set tr. live_invariant_strict (snd s))"
  using assms
proof (induction ops arbitrary: m tr)
  case Nil
  then show ?case by simp
next
  case (Cons c cs)
  from Cons.prems(2) obtain r m' tr' where
    c: "call debug c m = Inr (r, m')" and cs: "run debug cs m' = Inr tr'"
    and tr: "tr = (r, m') # tr'"
    unfolding run_Cons_Inr by blast
  from Cons.prems(3) have nr: "\<not> is_reset c" and nrs: "\<forall>c \<in> set cs. \<not> is_reset c"
    by simp_all
  from Cons.prems(4) [rule_format, of 0] have here: "\<And>g. c = NoteGTIDAdded g \<Longrightarrow> noteGTIDAdded_pre g m"
    by simp
  have later_added: "\<forall>i g. i < length cs \<and> cs ! i = NoteGTIDAdded g \<longrightarrow>
           noteGTIDAdded_pre g ((m' # map snd tr') ! i)"
  proof (intro allI impI)
    fix i g assume "i < length cs \<and> cs ! i = NoteGTIDAdded g"
    with Cons.prems(4) [rule_format, of "Suc i" g] show "noteGTIDAdded_pre g ((m' # map snd tr') ! i)"
      by (simp add: tr)
  qed
  from Cons.prems(5) have r: "\<And>a. r = Some a \<Longrightarrow> GTSeqNo a \<noteq> - 1"
    and rest: "\<forall>a \<in> set (allocations tr'). GTSeqNo a \<noteq> - 1"
    unfolding tr allocations_Cons by auto
  from call_min_step [OF Cons.prems(1) c nr here r]
  have m': "live_invariant_strict m'" and min: "minLiveGTID m \<le> minLiveGTID m'"
    by simp_all
  from Cons.IH [OF m' cs nrs later_added rest]
  have mins: "sorted (map minLiveGTID (m' # map snd tr'))"
    and inv: "\<forall>s \<in> set tr'. live_invariant_strict (snd s)"
    by simp_all
  have "sorted (map minLiveGTID (m # map snd tr))"
    using mins min by (auto simp add: tr intro: order_trans)
  with inv m' show ?case by (simp add: tr)
qed

lemma run_debug_added_pre:
  assumes "run True ops m = Inr tr"
  shows "\<forall>i g. i < length ops \<and> ops ! i = NoteGTIDAdded g \<longrightarrow>
           noteGTIDAdded_pre g ((m # map snd tr) ! i)"
  using assms
proof (induction ops arbitrary: m tr)
  case Nil
  then show ?case by simp
next
  case (Cons c cs)
  from Cons.prems obtain r m' tr' where
    c: "call True c m = Inr (r, m')" and cs: "run True cs m' = Inr tr'"
    and tr: "tr = (r, m') # tr'"
    unfolding run_Cons_Inr by blast
  show ?case
  proof (intro allI impI)
    fix i g assume a: "i < length (c # cs) \<and> (c # cs) ! i = NoteGTIDAdded g"
    show "noteGTIDAdded_pre g ((m # map snd tr) ! i)"
    proof (cases i)
      case 0
      with a c have "noteGTIDAdded True g m = Inr m'"
        by (simp add: no_result_Inr)
      from debug_build_decides(2) [OF this, of True] show ?thesis
        using 0 by simp
    next
      case (Suc j)
      with a Cons.IH [OF cs, rule_format, of j g] show ?thesis
        by (simp add: tr)
    qed
  qed
qed

lemma call_added_primary_state:
  "n \<le> g \<Longrightarrow>
   call debug (NoteGTIDAdded g) (primary_state n n live mu) =
     Inr (None, primary_state g g live mu)"
  by (simp add: noteGTIDAdded_def noteGTIDAdded_pre_def primary_state_def no_result_def
      GTID_cmp_order)

lemma step_up_run:
  "run debug step_up_calls (primary_state (GTID 6 0) (GTID 6 0) {||} (GTID 5 10)) =
     Inr step_up_trace"
proof -
  have le: "GTID 6 0 \<le> GTID 6 5"
    by (simp add: less_eq_GTID_def GTID_cmp_def)
  have sets: "{|GTID 6 6, GTID 6 5|} |-| {|GTID 6 5|} = {|GTID 6 6|}"
    by auto
  show ?thesis
    by (simp add: step_up_calls_def step_up_trace_def call_added_primary_state [OF le]
        call_get_primary_state call_done_min_primary_state sets inc_def del: call.simps)
qed

lemma step_up_added:
  "i < length step_up_calls \<and> step_up_calls ! i = NoteGTIDAdded g \<longrightarrow> i = 0 \<and> g = GTID 6 5"
proof (cases i)
  case 0
  then show ?thesis by (simp add: step_up_calls_def)
next
  case (Suc j)
  then show ?thesis
    by (cases j) (auto simp add: step_up_calls_def nth_Cons')
qed

lemma noteGTIDAdded_pre_next_le: "noteGTIDAdded_pre g m \<Longrightarrow> nextLiveGTID m \<le> g"
  by (simp add: noteGTIDAdded_pre_def GTID_cmp_le_0)

text \<open>
  Claim C6, as amended. Take a sequence of calls without \<^verbatim>\<open>resetManager\<close>, run from any
  state in a debug or a release build, in which no allocated GTID has the largest
  \<^verbatim>\<open>GTSeqNo\<close> (\<open>2^64 - 1\<close>, written \<open>- 1\<close>).

  \<^item> If every \<^verbatim>\<open>noteGTIDAdded(g)\<close> of it is called where \<^verbatim>\<open>nextLiveGTID\<close> is at most
    \<open>g\<close> (its second \<^verbatim>\<open>dassert\<close>), the GTIDs that \<^verbatim>\<open>getGTIDForPrimary\<close> returns are
    strictly increasing in the order of the calls.
  \<^item> If the sequence starts where the invariant of the live side holds (the constructor
    establishes it and every operation keeps it, \<^verbatim>\<open>resetManager\<close> too) and every
    \<^verbatim>\<open>noteGTIDAdded(g)\<close> of it meets its precondition, \<^verbatim>\<open>minLiveGTID\<close> never decreases
    from one state to the next, and the invariant holds in every state of the trace.
  \<^item> In a debug build that returns a trace, every \<^verbatim>\<open>noteGTIDAdded(g)\<close> met its
    precondition.

  The state before call \<open>i\<close> is element \<open>i\<close> of the start state followed by the states
  of the trace.
\<close>

theorem allocations_strictly_increasing:
  "(run debug ops m = Inr tr \<and> (\<forall>c \<in> set ops. \<not> is_reset c) \<and>
    (\<forall>i g. i < length ops \<and> ops ! i = NoteGTIDAdded g \<longrightarrow>
       nextLiveGTID ((m # map snd tr) ! i) \<le> g) \<and>
    (\<forall>a \<in> set (allocations tr). GTSeqNo a \<noteq> - 1) \<longrightarrow>
      sorted_wrt (<) (allocations tr)) \<and>
   (live_invariant_strict m \<and> run debug ops m = Inr tr \<and> (\<forall>c \<in> set ops. \<not> is_reset c) \<and>
    (\<forall>i g. i < length ops \<and> ops ! i = NoteGTIDAdded g \<longrightarrow>
       noteGTIDAdded_pre g ((m # map snd tr) ! i)) \<and>
    (\<forall>a \<in> set (allocations tr). GTSeqNo a \<noteq> - 1) \<longrightarrow>
      sorted (map minLiveGTID (m # map snd tr)) \<and>
      (\<forall>s \<in> set tr. live_invariant_strict (snd s))) \<and>
   (run True ops m = Inr tr \<longrightarrow>
      (\<forall>i g. i < length ops \<and> ops ! i = NoteGTIDAdded g \<longrightarrow>
         noteGTIDAdded_pre g ((m # map snd tr) ! i) \<and>
         nextLiveGTID ((m # map snd tr) ! i) \<le> g))"
proof (intro conjI impI)
  assume "run debug ops m = Inr tr \<and> (\<forall>c \<in> set ops. \<not> is_reset c) \<and>
    (\<forall>i g. i < length ops \<and> ops ! i = NoteGTIDAdded g \<longrightarrow>
       nextLiveGTID ((m # map snd tr) ! i) \<le> g) \<and>
    (\<forall>a \<in> set (allocations tr). GTSeqNo a \<noteq> - 1)"
  then show "sorted_wrt (<) (allocations tr)"
    using run_allocations_increasing [of debug ops m tr] by blast
next
  assume a: "live_invariant_strict m \<and> run debug ops m = Inr tr \<and>
    (\<forall>c \<in> set ops. \<not> is_reset c) \<and>
    (\<forall>i g. i < length ops \<and> ops ! i = NoteGTIDAdded g \<longrightarrow>
       noteGTIDAdded_pre g ((m # map snd tr) ! i)) \<and>
    (\<forall>a \<in> set (allocations tr). GTSeqNo a \<noteq> - 1)"
  then show "sorted (map minLiveGTID (m # map snd tr))"
    using run_minLive_monotone [of m debug ops tr] by blast
  from a show "\<forall>s \<in> set tr. live_invariant_strict (snd s)"
    using run_minLive_monotone [of m debug ops tr] by blast
next
  assume r: "run True ops m = Inr tr"
  show "\<forall>i g. i < length ops \<and> ops ! i = NoteGTIDAdded g \<longrightarrow>
         noteGTIDAdded_pre g ((m # map snd tr) ! i) \<and>
         nextLiveGTID ((m # map snd tr) ! i) \<le> g"
    using run_debug_added_pre [OF r] noteGTIDAdded_pre_next_le by blast
qed

text \<open>
  The step-up after the reset of scenario S6, a state that no constructor leaves, in a
  release build and in a debug build.
\<close>

theorem allocations_strictly_increasing_witness:
  "live_invariant_strict (primary_state (GTID 6 0) (GTID 6 0) {||} (GTID 5 10)) \<and>
   run False step_up_calls (primary_state (GTID 6 0) (GTID 6 0) {||} (GTID 5 10)) =
     Inr step_up_trace \<and>
   run True step_up_calls (primary_state (GTID 6 0) (GTID 6 0) {||} (GTID 5 10)) =
     Inr step_up_trace \<and>
   list_all (\<lambda>c. \<not> is_reset c) step_up_calls \<and>
   step_up_calls ! 0 = NoteGTIDAdded (GTID 6 5) \<and>
   noteGTIDAdded_pre (GTID 6 5) (primary_state (GTID 6 0) (GTID 6 0) {||} (GTID 5 10)) \<and>
   nextLiveGTID (primary_state (GTID 6 0) (GTID 6 0) {||} (GTID 5 10)) \<le> GTID 6 5 \<and>
   allocations step_up_trace = [GTID 6 5, GTID 6 6] \<and>
   sorted_wrt (<) (allocations step_up_trace) \<and>
   map minLiveGTID
     (primary_state (GTID 6 0) (GTID 6 0) {||} (GTID 5 10) # map snd step_up_trace) =
     [GTID 6 0, GTID 6 5, GTID 6 5, GTID 6 5, GTID 6 6] \<and>
   sorted (map minLiveGTID
     (primary_state (GTID 6 0) (GTID 6 0) {||} (GTID 5 10) # map snd step_up_trace)) \<and>
   list_all (\<lambda>s. live_invariant_strict (snd s)) step_up_trace"
proof -
  let ?m = "primary_state (GTID 6 0) (GTID 6 0) {||} (GTID 5 10)"
  have s: "live_invariant_strict ?m"
    by (simp add: live_invariant_strict_def primary_state_def)
  have p: "noteGTIDAdded_pre (GTID 6 5) ?m"
    by (simp add: noteGTIDAdded_pre_def primary_state_def GTID_cmp_def)
  have l: "nextLiveGTID ?m \<le> GTID 6 5"
    by (simp add: primary_state_def less_eq_GTID_def GTID_cmp_def)
  have n: "\<forall>c \<in> set step_up_calls. \<not> is_reset c"
    by (simp add: step_up_calls_def)
  have z: "step_up_calls ! 0 = NoteGTIDAdded (GTID 6 5)"
    by (simp add: step_up_calls_def)
  have a: "allocations step_up_trace = [GTID 6 5, GTID 6 6]"
    by (simp add: step_up_trace_def)
  have b: "\<forall>a \<in> set (allocations step_up_trace). GTSeqNo a \<noteq> - 1"
    unfolding a by simp
  have h1: "\<forall>i g. i < length step_up_calls \<and> step_up_calls ! i = NoteGTIDAdded g \<longrightarrow>
       nextLiveGTID ((?m # map snd step_up_trace) ! i) \<le> g"
  proof (intro allI impI)
    fix i g assume "i < length step_up_calls \<and> step_up_calls ! i = NoteGTIDAdded g"
    with step_up_added [of i g] have "i = 0" and "g = GTID 6 5"
      by simp_all
    with l show "nextLiveGTID ((?m # map snd step_up_trace) ! i) \<le> g"
      by simp
  qed
  have h2: "\<forall>i g. i < length step_up_calls \<and> step_up_calls ! i = NoteGTIDAdded g \<longrightarrow>
       noteGTIDAdded_pre g ((?m # map snd step_up_trace) ! i)"
  proof (intro allI impI)
    fix i g assume "i < length step_up_calls \<and> step_up_calls ! i = NoteGTIDAdded g"
    with step_up_added [of i g] have "i = 0" and "g = GTID 6 5"
      by simp_all
    with p show "noteGTIDAdded_pre g ((?m # map snd step_up_trace) ! i)"
      by simp
  qed
  have m: "map minLiveGTID (?m # map snd step_up_trace) =
     [GTID 6 0, GTID 6 5, GTID 6 5, GTID 6 5, GTID 6 6]"
    by (simp add: step_up_trace_def primary_state_def)
  from allocations_strictly_increasing [of False step_up_calls ?m step_up_trace]
    s step_up_run [of False] step_up_run [of True] n z p l a b h1 h2 m
  show ?thesis
    by (simp add: list_all_iff less_eq_GTID_def less_GTID_def GTID_cmp_def)
qed

text \<open>
  The claim as it is worded fails across the wrap-around of \<^verbatim>\<open>GTSeqNo\<close>: from
  \<^verbatim>\<open>GTIDManager(GTID(0, 2^64-2))\<close> the first allocation is \<open>(0, 2^64-1)\<close> and the second
  is \<open>(0,0)\<close>, which is below the first.
\<close>

theorem allocations_counterexample:
  "(- 2 :: 64 word) = 0xfffffffffffffffe \<and> (- 1 :: 64 word) = 0xffffffffffffffff \<and>
   run True [GetGTIDForPrimary, GetGTIDForPrimary] (GTIDManager_ctor (GTID 0 (- 2))) =
     Inr [(Some (GTID 0 (- 1)),
            primary_state (GTID 0 0) (GTID 0 (- 1)) {|GTID 0 (- 1)|} (GTID 0 0)),
          (Some (GTID 0 0),
            primary_state (GTID 0 1) (GTID 0 (- 1)) {|GTID 0 0, GTID 0 (- 1)|} (GTID 0 0))] \<and>
   \<not> GTID 0 (- 1) < GTID 0 0 \<and>
   GTID 0 0 < GTID 0 (- 1)"
  by (simp add: ctor_primary_state call_get_primary_state inc_def GTID_default_def
      less_GTID_def GTID_cmp_def word_gt_0 del: call.simps)


section \<open>Collection: the number of indexes and the index accessor\<close>

lemma sint_le_uint: "sint w \<le> uint w" for w :: "32 word"
proof -
  have "- (2 ^ 31) \<le> uint w"
    by (rule order_trans [of _ 0]) simp_all
  then show ?thesis
    by (simp add: sint_uint signed_take_bit_int_less_eq_self_iff)
qed

lemma uint_size_int: "uint (size_int xs) = int (length xs) mod 2 ^ 32"
  by (simp add: size_int_def unsigned_of_nat take_bit_eq_mod of_nat_mod)

lemma sint_size_int_le: "sint (size_int xs) \<le> int (length xs)"
proof -
  have "sint (size_int xs) \<le> int (length xs) mod 2 ^ 32"
    using sint_le_uint [of "size_int xs"] by (simp add: uint_size_int)
  also have "\<dots> \<le> int (length xs)"
    by (rule zmod_le_nonneg_dividend) simp
  finally show ?thesis .
qed

lemma sint_size_int: "length xs < 2 ^ 31 \<Longrightarrow> sint (size_int xs) = int (length xs)"
proof -
  assume a: "length xs < 2 ^ 31"
  then have b: "int (length xs) < 2 ^ 31"
    by (metis of_nat_less_iff of_nat_numeral of_nat_power)
  then have "uint (size_int xs) = int (length xs)"
    by (simp add: uint_size_int)
  moreover have "signed_take_bit 31 (int (length xs)) = int (length xs)"
    by (rule signed_take_bit_int_eq_self) (use b in simp_all)
  ultimately show ?thesis
    by (simp add: sint_uint)
qed

text \<open>
  Claim C8. The checks of \<^verbatim>\<open>nIndexesBeingBuilt\<close> are: \<^verbatim>\<open>_nIndexes + 1\<close> is
  \<^verbatim>\<open>(int) _indexes.size()\<close> when an index is being built, \<^verbatim>\<open>_nIndexes\<close> is that size
  when none is. In every collection where they hold the function returns
  \<^verbatim>\<open>(int) _indexes.size()\<close>; where they do not, the assertion fails. So whenever it
  returns, \<^verbatim>\<open>nIndexes\<close> is that size when no index is being built and one less when one
  is, and the result is \<^verbatim>\<open>nIndexes() + 1\<close> exactly when \<^verbatim>\<open>indexBuildInProgress\<close>, and
  \<^verbatim>\<open>nIndexes()\<close> exactly when not. These are equations of \<^verbatim>\<open>int\<close>; with at most
  \<^verbatim>\<open>NIndexesMax\<close> indexes they are equations of the numbers themselves.
\<close>

theorem nIndexesBeingBuilt_counts:
  "((if indexBuildInProgress c then nIndexes c + 1 = size_int (indexes c)
     else nIndexes c = size_int (indexes c)) \<longrightarrow>
      nIndexesBeingBuilt c = Inr (size_int (indexes c))) \<and>
   (\<not> (if indexBuildInProgress c then nIndexes c + 1 = size_int (indexes c)
        else nIndexes c = size_int (indexes c)) \<longrightarrow>
      nIndexesBeingBuilt c = Inl AssertionFailure) \<and>
   (nIndexesBeingBuilt c = Inr r \<longrightarrow>
      r = size_int (indexes c) \<and>
      nIndexes c = (if indexBuildInProgress c then size_int (indexes c) - 1
                    else size_int (indexes c)) \<and>
      (r = nIndexes c + 1 \<longleftrightarrow> indexBuildInProgress c) \<and>
      (r = nIndexes c \<longleftrightarrow> \<not> indexBuildInProgress c) \<and>
      (length (indexes c) \<le> unat NIndexesMax \<longrightarrow>
         sint r = int (length (indexes c)) \<and>
         sint (nIndexes c) =
           (if indexBuildInProgress c then int (length (indexes c)) - 1
            else int (length (indexes c)))))"
proof (intro conjI impI)
  assume "if indexBuildInProgress c then nIndexes c + 1 = size_int (indexes c)
     else nIndexes c = size_int (indexes c)"
  then show "nIndexesBeingBuilt c = Inr (size_int (indexes c))"
    by (simp add: nIndexesBeingBuilt_def split: if_splits)
next
  assume "\<not> (if indexBuildInProgress c then nIndexes c + 1 = size_int (indexes c)
        else nIndexes c = size_int (indexes c))"
  then show "nIndexesBeingBuilt c = Inl AssertionFailure"
    by (simp add: nIndexesBeingBuilt_def split: if_splits)
next
  assume a: "nIndexesBeingBuilt c = Inr r"
  then show r: "r = size_int (indexes c)"
    by (auto simp add: nIndexesBeingBuilt_def split: if_splits)
  from a have n: "if indexBuildInProgress c then nIndexes c + 1 = size_int (indexes c)
            else nIndexes c = size_int (indexes c)"
    by (auto simp add: nIndexesBeingBuilt_def split: if_splits)
  then show n': "nIndexes c = (if indexBuildInProgress c then size_int (indexes c) - 1
                       else size_int (indexes c))"
    by (auto simp add: eq_diff_eq split: if_splits)
  from r n show "r = nIndexes c + 1 \<longleftrightarrow> indexBuildInProgress c"
    and "r = nIndexes c \<longleftrightarrow> \<not> indexBuildInProgress c"
    by (auto split: if_splits)
  assume "length (indexes c) \<le> unat NIndexesMax"
  then have len: "length (indexes c) \<le> 64"
    by (simp add: NIndexesMax_def)
  then have s: "sint (size_int (indexes c)) = int (length (indexes c))"
    by (intro sint_size_int) simp
  have "sint (size_int (indexes c) - 1) = sint (size_int (indexes c)) - 1"
    using len s by (simp add: sint_word_ariths signed_take_bit_int_eq_self)
  with s r n' show "sint r = int (length (indexes c))"
    and "sint (nIndexes c) =
           (if indexBuildInProgress c then int (length (indexes c)) - 1
            else int (length (indexes c)))"
    by (auto split: if_splits)
qed

text \<open>
  Three indexes: the third being built, all three built, and a count that does not fit.
\<close>

theorem nIndexesBeingBuilt_counts_witness:
  "nIndexesBeingBuilt
     \<lparr>indexBuildInProgress = True, nIndexes = 2, indexes = [''_id_'', ''a_1'', ''b_1'']\<rparr> =
     Inr 3 \<and>
   nIndexesBeingBuilt
     \<lparr>indexBuildInProgress = False, nIndexes = 3, indexes = [''_id_'', ''a_1'', ''b_1'']\<rparr> =
     Inr 3 \<and>
   nIndexesBeingBuilt
     \<lparr>indexBuildInProgress = False, nIndexes = 2, indexes = [''_id_'', ''a_1'', ''b_1'']\<rparr> =
     Inl AssertionFailure \<and>
   (2 :: 32 word) + 1 = size_int [''_id_'', ''a_1'', ''b_1''] \<and>
   (3 :: 32 word) = size_int [''_id_'', ''a_1'', ''b_1''] \<and>
   (2 :: 32 word) \<noteq> size_int [''_id_'', ''a_1'', ''b_1''] \<and>
   length [''_id_'', ''a_1'', ''b_1''] \<le> unat NIndexesMax \<and>
   sint (3 :: 32 word) = int (length [''_id_'', ''a_1'', ''b_1'']) \<and>
   sint (2 :: 32 word) = int (length [''_id_'', ''a_1'', ''b_1'']) - 1"
proof -
  let ?xs = "[''_id_'', ''a_1'', ''b_1'']"
  have sz: "size_int ?xs = 3"
    by (simp add: size_int_def)
  have l: "length ?xs \<le> unat NIndexesMax"
    by (simp add: NIndexesMax_def)
  from nIndexesBeingBuilt_counts
      [of "\<lparr>indexBuildInProgress = True, nIndexes = 2, indexes = ?xs\<rparr>" 3]
    nIndexesBeingBuilt_counts
      [of "\<lparr>indexBuildInProgress = False, nIndexes = 3, indexes = ?xs\<rparr>" 3]
    nIndexesBeingBuilt_counts
      [of "\<lparr>indexBuildInProgress = False, nIndexes = 2, indexes = ?xs\<rparr>" 3]
    sz l
  show ?thesis
    by simp
qed

text \<open>
  Claim C10. \<^verbatim>\<open>idx\<close> checks \<^verbatim>\<open>idxNo < NIndexesMax\<close> and \<^verbatim>\<open>0 <= idxNo < _indexes.size()\<close>
  before it reads the vector. With at most \<^verbatim>\<open>NIndexesMax\<close> indexes, every \<^verbatim>\<open>idxNo\<close> from 0
  to below the size passes both checks and gets the element at that position. And
  whatever the collection, a call that returns has read inside the vector: \<^verbatim>\<open>idxNo\<close> is
  not negative, below \<^verbatim>\<open>NIndexesMax\<close> and below the length, and the result is the element
  there.
\<close>

theorem idx_in_bounds:
  "(length (indexes c) \<le> unat NIndexesMax \<and> 0 \<le> sint idxNo \<and>
    sint idxNo < int (length (indexes c)) \<longrightarrow>
      idx c idxNo = Inr (indexes c ! nat (sint idxNo))) \<and>
   (idx c idxNo = Inr x \<longrightarrow>
      0 \<le> sint idxNo \<and> sint idxNo < sint NIndexesMax \<and>
      nat (sint idxNo) < length (indexes c) \<and> x = indexes c ! nat (sint idxNo))"
proof (intro conjI impI)
  assume a: "length (indexes c) \<le> unat NIndexesMax \<and> 0 \<le> sint idxNo \<and>
    sint idxNo < int (length (indexes c))"
  then have len: "length (indexes c) \<le> 64"
    by (simp add: NIndexesMax_def)
  then have "sint (size_int (indexes c)) = int (length (indexes c))"
    by (intro sint_size_int) simp
  with a len show "idx c idxNo = Inr (indexes c ! nat (sint idxNo))"
    by (simp add: idx_def NIndexesMax_def)
next
  assume r: "idx c idxNo = Inr x"
  then have b: "sint idxNo < sint NIndexesMax" "0 \<le> sint idxNo"
     "sint idxNo < sint (size_int (indexes c))" "x = indexes c ! nat (sint idxNo)"
    by (simp_all add: idx_def split: if_splits)
  from b(2,3) sint_size_int_le [of "indexes c"] have "nat (sint idxNo) < length (indexes c)"
    by linarith
  with b show "0 \<le> sint idxNo" "sint idxNo < sint NIndexesMax"
    "nat (sint idxNo) < length (indexes c)" "x = indexes c ! nat (sint idxNo)"
    by simp_all
qed

text \<open>The second of three indexes.\<close>

theorem idx_in_bounds_witness:
  "length [''_id_'', ''a_1'', ''b_1''] \<le> unat NIndexesMax \<and>
   0 \<le> sint (1 :: 32 word) \<and>
   sint (1 :: 32 word) < int (length [''_id_'', ''a_1'', ''b_1'']) \<and>
   idx \<lparr>indexBuildInProgress = False, nIndexes = 3, indexes = [''_id_'', ''a_1'', ''b_1'']\<rparr> 1
     = Inr ''a_1'' \<and>
   sint (1 :: 32 word) < sint NIndexesMax \<and>
   nat (sint (1 :: 32 word)) < length [''_id_'', ''a_1'', ''b_1'']"
proof -
  let ?c = "\<lparr>indexBuildInProgress = False, nIndexes = 3,
             indexes = [''_id_'', ''a_1'', ''b_1'']\<rparr>"
  have h: "length (indexes ?c) \<le> unat NIndexesMax \<and> 0 \<le> sint (1 :: 32 word) \<and>
      sint (1 :: 32 word) < int (length (indexes ?c))"
    by (simp add: NIndexesMax_def)
  from idx_in_bounds [of ?c 1 "''a_1''"] h show ?thesis
    by (simp add: NIndexesMax_def)
qed

end
